theory Spec2Isabelle
  imports Complex_Main
begin

section \<open>The eES event generator (eES\_gen.py) as HOL functions\<close>

text \<open>
  Python and numpy floats are idealised as the reals: rounding, overflow and underflow are
  left out. What floating point does beyond rounding is written out: a Python float
  division by zero raises \<^verbatim>\<open>ZeroDivisionError\<close>, a negative Python float raised to
  the power 0.5 is a complex number (and the ordering comparison that follows raises
  \<^verbatim>\<open>TypeError\<close>), and a numpy array divided by a zero norm is an array of NaN
  (a warning, no exception), modelled by \<open>None\<close>.

  Every exception of the source is a value of the type \<open>error\<close>; a method that
  draws random numbers takes the state of \<^verbatim>\<open>self.rng\<close> and returns the new one.
\<close>

subsection \<open>Exceptions\<close>

datatype error =
    AssertionError_flavor string
      \<comment> \<open>lines 65 and 90: \<^verbatim>\<open>assert flavor in self.flavors\<close>, with the flavor of the message\<close>
  | AssertionError_eCos real real real
      \<comment> \<open>line 153: \<^verbatim>\<open>assert eCos >= -1 and eCos <= 1\<close>, with eCos, T and Ev of the message\<close>
  | AssertionError_dot
      \<comment> \<open>line 159: \<^verbatim>\<open>assert np.isclose(np.dot(eDir, sn_direction), eCos)\<close>\<close>
  | RuntimeError_sampling
      \<comment> \<open>line 194: \<^verbatim>\<open>RuntimeError('Rejection sampling failed to converge.')\<close>\<close>
  | ZeroDivisionError
  | TypeError
  | ValueError
  | IndexError
  | KeyError string

subsection \<open>The random number generator\<close>

text \<open>
  \<^verbatim>\<open>self.rng\<close> is a \<^verbatim>\<open>numpy.random.Generator\<close>. Its bit generator is a
  deterministic sequence of doubles of the half-open unit interval, fixed by the seed; the
  state is that sequence (\<open>tape\<close>) and the number of doubles already drawn (\<open>pos\<close>).
\<close>

record rng =
  tape :: "nat \<Rightarrow> real"
  pos :: nat

definition rng_ok :: "rng \<Rightarrow> bool" where
  "rng_ok r = (\<forall>n. 0 \<le> tape r n \<and> tape r n < 1)"

definition random :: "rng \<Rightarrow> real \<times> rng" where
  "random r = (tape r (pos r), r\<lparr>pos := Suc (pos r)\<rparr>)"

text \<open>
  \<^verbatim>\<open>Generator.uniform(low, high)\<close> returns \<^verbatim>\<open>low + (high - low) * random()\<close>;
  it requires \<^verbatim>\<open>high - low\<close> to be non-negative and raises \<^verbatim>\<open>ValueError\<close>
  otherwise, before any draw.
\<close>

definition uniform :: "real \<Rightarrow> real \<Rightarrow> rng \<Rightarrow> error + (real \<times> rng)" where
  "uniform low high r =
     (if high - low < 0 then Inl ValueError
      else (case random r of (u, r') \<Rightarrow> Inr (low + (high - low) * u, r')))"

subsection \<open>rejectionSampling (lines 168-195)\<close>

text \<open>
  The \<^verbatim>\<open>while True\<close> loop, with \<^verbatim>\<open>nIter\<close> as an argument. The function
  sampled may raise, so it returns a sum.
\<close>

function rejectionLoop ::
  "(real \<Rightarrow> error + real) \<Rightarrow> real \<Rightarrow> real \<Rightarrow> real \<Rightarrow> nat \<Rightarrow> rng \<Rightarrow> error + (real \<times> rng)" where
  "rejectionLoop func xmin xmax ymax nIter r =
     (case uniform xmin xmax r of
        Inl e \<Rightarrow> Inl e
      | Inr (x, r1) \<Rightarrow>
         (case uniform 0 ymax r1 of
            Inl e \<Rightarrow> Inl e
          | Inr (y, r2) \<Rightarrow>
             (case func x of
                Inl e \<Rightarrow> Inl e
              | Inr fx \<Rightarrow>
                 if y < fx then Inr (x, r2)
                 else if nIter + 1 > 1000 then Inl RuntimeError_sampling
                 else rejectionLoop func xmin xmax ymax (nIter + 1) r2)))"
  by pat_completeness auto
termination
  by (relation "measure (\<lambda>(func, xmin, xmax, ymax, nIter, r). 1001 - nIter)") auto

definition rejectionSampling ::
  "(real \<Rightarrow> error + real) \<Rightarrow> real \<Rightarrow> real \<Rightarrow> real \<Rightarrow> rng \<Rightarrow> error + (real \<times> rng)" where
  "rejectionSampling func xmin xmax ymax r = rejectionLoop func xmin xmax ymax 0 r"

text \<open>
  The draws the loop makes from the state \<open>r\<close>, named for the statements below: the
  \<open>k\<close>-th candidate (counted from 0) is \<open>x_at\<close>, its ordinate \<open>y_at\<close>, and it is
  rejected when \<^verbatim>\<open>y < func(x)\<close> is false.
\<close>

definition x_at :: "real \<Rightarrow> real \<Rightarrow> rng \<Rightarrow> nat \<Rightarrow> real" where
  "x_at xmin xmax r k = xmin + (xmax - xmin) * tape r (pos r + 2 * k)"

definition y_at :: "real \<Rightarrow> rng \<Rightarrow> nat \<Rightarrow> real" where
  "y_at ymax r k = 0 + (ymax - 0) * tape r (pos r + 2 * k + 1)"

definition rejected :: "(real \<Rightarrow> real) \<Rightarrow> real \<Rightarrow> real \<Rightarrow> real \<Rightarrow> rng \<Rightarrow> nat \<Rightarrow> bool" where
  "rejected f xmin xmax ymax r k = (\<not> y_at ymax r k < f (x_at xmin xmax r k))"

definition advance :: "nat \<Rightarrow> rng \<Rightarrow> rng" where
  "advance n r = r\<lparr>pos := pos r + n\<rparr>"

subsection \<open>numpy and scipy operations the generator calls\<close>

text \<open>
  These are library functions, modelled from their documented behaviour over the reals.
\<close>

type_synonym vec = "real \<times> real \<times> real"

fun dot :: "vec \<Rightarrow> vec \<Rightarrow> real" where
  "dot (a1, a2, a3) (b1, b2, b3) = a1 * b1 + a2 * b2 + a3 * b3"

fun cross :: "vec \<Rightarrow> vec \<Rightarrow> vec" where
  "cross (a1, a2, a3) (b1, b2, b3) = (a2 * b3 - a3 * b2, a3 * b1 - a1 * b3, a1 * b2 - a2 * b1)"

fun linalg_norm :: "vec \<Rightarrow> real" where
  "linalg_norm (a1, a2, a3) = sqrt (a1 * a1 + a2 * a2 + a3 * a3)"

fun smul :: "real \<Rightarrow> vec \<Rightarrow> vec" where
  "smul c (a1, a2, a3) = (c * a1, c * a2, c * a3)"

fun vadd :: "vec \<Rightarrow> vec \<Rightarrow> vec" where
  "vadd (a1, a2, a3) (b1, b2, b3) = (a1 + b1, a2 + b2, a3 + b3)"

text \<open>
  \<^verbatim>\<open>v / np.linalg.norm(v)\<close>: numpy divides an array by zero without raising; a zero
  norm means a zero vector, every component is 0/0, and the result is the array of NaN,
  here \<open>None\<close>. Every later array computed from it is NaN as well.
\<close>

definition unit_vector :: "vec \<Rightarrow> vec option" where
  "unit_vector v = (if linalg_norm v = 0 then None else Some (smul (1 / linalg_norm v) v))"

text \<open>
  \<^verbatim>\<open>R.from_rotvec(rotvec).apply(v)\<close>: the rotation by the angle \<open>|rotvec|\<close> about the
  axis \<open>rotvec / |rotvec|\<close>, the identity for the zero vector (Rodrigues' formula).
\<close>

definition rot_apply :: "vec \<Rightarrow> vec \<Rightarrow> vec" where
  "rot_apply rotvec v =
     (let angle = linalg_norm rotvec in
      if angle = 0 then v
      else let k = smul (1 / angle) rotvec in
        vadd (vadd (smul (cos angle) v) (smul (sin angle) (cross k v)))
             (smul ((1 - cos angle) * dot k v) k))"

text \<open>\<^verbatim>\<open>np.isclose(a, b)\<close> with its default tolerances.\<close>

definition isclose :: "real \<Rightarrow> real \<Rightarrow> bool" where
  "isclose a b = (\<bar>a - b\<bar> \<le> 1 / 10 ^ 8 + 1 / 10 ^ 5 * \<bar>b\<bar>)"

text \<open>\<^verbatim>\<open>np.max\<close> and \<^verbatim>\<open>np.min\<close> raise \<^verbatim>\<open>ValueError\<close> on an empty array.\<close>

definition np_max :: "real list \<Rightarrow> error + real" where
  "np_max xs = (if xs = [] then Inl ValueError else Inr (Max (set xs)))"

definition np_min :: "real list \<Rightarrow> error + real" where
  "np_min xs = (if xs = [] then Inl ValueError else Inr (Min (set xs)))"

text \<open>
  \<^verbatim>\<open>np.interp(x, xp, fp)\<close>. numpy looks up the index \<open>j\<close> with
  \<open>xp[j] \<le> x < xp[j+1]\<close> and returns \<open>fp[j]\<close> when \<open>x = xp[j]\<close> or \<open>j\<close> is the
  last index, and \<open>slope * (x - xp[j]) + fp[j]\<close> otherwise; left of \<open>xp[0]\<close> it returns
  \<open>fp[0]\<close> and right of the last point the last value. It raises \<^verbatim>\<open>ValueError\<close> on
  an empty \<open>xp\<close> and on arrays of different lengths. numpy finds \<open>j\<close> by bisection and
  does not check that \<open>xp\<close> increases; the scan below finds the same \<open>j\<close> when it does.
\<close>

fun interp_scan :: "real \<Rightarrow> real list \<Rightarrow> real list \<Rightarrow> real" where
  "interp_scan x (x0 # x1 # xs) (y0 # y1 # ys) =
     (if x < x1 then (if x0 = x then y0 else (y1 - y0) / (x1 - x0) * (x - x0) + y0)
      else interp_scan x (x1 # xs) (y1 # ys))"
| "interp_scan x [x0] (y0 # ys) = y0"
| "interp_scan x xs ys = 0"

definition np_interp :: "real \<Rightarrow> real list \<Rightarrow> real list \<Rightarrow> error + real" where
  "np_interp x xp fp =
     (if xp = [] then Inl ValueError
      else if length fp \<noteq> length xp then Inl ValueError
      else if x > last xp then Inr (last fp)
      else if x < hd xp then Inr (hd fp)
      else Inr (interp_scan x xp fp))"

text \<open>
  \<^verbatim>\<open>Generator.choice(a, p=p)\<close> for one sample: it raises \<^verbatim>\<open>ValueError\<close> when
  \<open>p\<close> holds a NaN (here \<open>None\<close>), a negative entry, or does not sum to 1 within
  \<open>sqrt(eps)\<close>; then it draws one double \<open>u\<close> and returns \<open>a[idx]\<close>, \<open>idx\<close> the
  number of entries of the normalised cumulative sum that are at most \<open>u\<close>
  (\<^verbatim>\<open>searchsorted(side='right')\<close>).
\<close>

fun cumsum_from :: "real \<Rightarrow> real list \<Rightarrow> real list" where
  "cumsum_from acc [] = []"
| "cumsum_from acc (x # xs) = (acc + x) # cumsum_from (acc + x) xs"

definition choice :: "'a list \<Rightarrow> real list option \<Rightarrow> rng \<Rightarrow> error + ('a \<times> rng)" where
  "choice a p r =
     (case p of
        None \<Rightarrow> Inl ValueError
      | Some ps \<Rightarrow>
         if a = [] \<or> length ps \<noteq> length a then Inl ValueError
         else if list_ex (\<lambda>x. x < 0) ps then Inl ValueError
         else if \<bar>sum_list ps - 1\<bar> > 1 / 2 ^ 26 then Inl ValueError
         else (case random r of (u, r') \<Rightarrow>
           (let cdf = cumsum_from 0 ps;
                cdf' = map (\<lambda>c. c / last cdf) cdf;
                idx = length (filter (\<lambda>c. c \<le> u) cdf')
            in if idx < length a then Inr (a ! idx, r') else Inl IndexError)))"

text \<open>Python's float division.\<close>

definition py_div :: "real \<Rightarrow> real \<Rightarrow> error + real" where
  "py_div a b = (if b = 0 then Inl ZeroDivisionError else Inr (a / b))"

subsection \<open>The class eES\_Gen\<close>

text \<open>
  The four table fields; \<^verbatim>\<open>self.rng\<close>, the only field that changes after
  construction, is passed apart.
\<close>

record eES_Gen =
  flavors :: "string list"
  nuEnergyBins :: "real list"
  eventRates :: "string \<rightharpoonup> real list"
  totalRates :: "string \<rightharpoonup> real"

text \<open>The dictionary \<^verbatim>\<open>genEvent\<close> returns.\<close>

record event =
  ev_flavor :: string
  ev_nuEnergy :: real
  ev_sn_direction :: vec
  ev_eKE :: real
  ev_eDir :: vec

text \<open>
  \<^verbatim>\<open>__init__\<close> (lines 35-49). Reading the six files is left out: \<open>readFile\<close> gives
  the triple \<^verbatim>\<open>readSnowglobesTxtFile\<close> returns for a file name. \<open>default_rng\<close>
  maps a seed to the sequence numpy's seeded bit generator produces, and \<open>entropy\<close> is
  the sequence an unseeded one produces in this run; numpy refuses a negative seed with
  \<^verbatim>\<open>ValueError\<close>.
\<close>

definition init ::
  "(string \<Rightarrow> real list \<times> real list \<times> real) \<Rightarrow> (int \<Rightarrow> nat \<Rightarrow> real) \<Rightarrow> (nat \<Rightarrow> real) \<Rightarrow>
   string \<Rightarrow> string \<Rightarrow> string \<Rightarrow> int \<Rightarrow> error + (eES_Gen \<times> rng)" where
  "init readFile default_rng entropy dataDir flux detectorConfig seed =
     (let flavors = [''nue'', ''nuebar'', ''numu'', ''numubar'', ''nutau'', ''nutaubar''];
          filenames = map (\<lambda>flavor. dataDir @ ''/'' @ flux @ ''_'' @ flavor @ ''_e_''
                                       @ detectorConfig @ ''_events.dat'') flavors;
          snowglobesData = map readFile filenames;
          self = \<lparr> flavors = flavors,
                   nuEnergyBins = fst (snowglobesData ! 0),
                   eventRates = map_of (zip flavors (map (\<lambda>d. fst (snd d)) snowglobesData)),
                   totalRates = map_of (zip flavors (map (\<lambda>d. snd (snd d)) snowglobesData)) \<rparr>
      in if seed = - 1 then Inr (self, \<lparr> tape = entropy, pos = 0 \<rparr>)
         else if seed < 0 then Inl ValueError
         else Inr (self, \<lparr> tape = default_rng seed, pos = 0 \<rparr>))"

text \<open>\<^verbatim>\<open>getEventRate\<close> (lines 51-67).\<close>

definition getEventRate :: "eES_Gen \<Rightarrow> string \<Rightarrow> real \<Rightarrow> error + real" where
  "getEventRate self flavor nuEnergy =
     (if flavor \<notin> set (flavors self) then Inl (AssertionError_flavor flavor)
      else (case eventRates self flavor of
              None \<Rightarrow> Inl (KeyError flavor)
            | Some rates \<Rightarrow> np_interp nuEnergy (nuEnergyBins self) rates))"

text \<open>
  Lines 87-89 of \<^verbatim>\<open>selectNu\<close>: the flavor drawn with the total rates as weights. A
  zero sum of the weights makes every probability NaN or infinite.
\<close>

definition chooseFlavor :: "eES_Gen \<Rightarrow> rng \<Rightarrow> error + (string \<times> rng)" where
  "chooseFlavor self r =
     (case filter (\<lambda>flavor. totalRates self flavor = None) (flavors self) of
        k # ks \<Rightarrow> Inl (KeyError k)
      | [] \<Rightarrow>
         (let flavorWeights = map (\<lambda>flavor. the (totalRates self flavor)) (flavors self);
              s = sum_list flavorWeights
          in choice (flavors self)
               (if s = 0 then None else Some (map (\<lambda>w. w / s) flavorWeights)) r))"

text \<open>\<^verbatim>\<open>selectNu\<close> (lines 72-97).\<close>

definition selectNu ::
  "eES_Gen \<Rightarrow> string option \<Rightarrow> real \<Rightarrow> rng \<Rightarrow> error + ((string \<times> real) \<times> rng)" where
  "selectNu self flavor nuThreshold r =
     (case (case flavor of None \<Rightarrow> chooseFlavor self r | Some f \<Rightarrow> Inr (f, r)) of
        Inl e \<Rightarrow> Inl e
      | Inr (flavor', r1) \<Rightarrow>
         if flavor' \<notin> set (flavors self) then Inl (AssertionError_flavor flavor')
         else (case eventRates self flavor' of
                 None \<Rightarrow> Inl (KeyError flavor')
               | Some rates \<Rightarrow>
           (case np_max rates of
              Inl e \<Rightarrow> Inl e
            | Inr maxEventRate \<Rightarrow>
           (case np_min (nuEnergyBins self) of
              Inl e \<Rightarrow> Inl e
            | Inr minBin \<Rightarrow>
           (let minEnergy = max minBin nuThreshold in
           (case np_max (nuEnergyBins self) of
              Inl e \<Rightarrow> Inl e
            | Inr maxBin \<Rightarrow>
           (case rejectionSampling (\<lambda>x. getEventRate self flavor' x)
                                   minEnergy maxBin maxEventRate r1 of
              Inl e \<Rightarrow> Inl e
            | Inr (nuEnergy, r2) \<Rightarrow> Inr ((flavor', nuEnergy), r2))))))))"

subsection \<open>genEvent (lines 99-166)\<close>

text \<open>Lines 116-124: the supernova direction and the rotation vector that carries z onto it.
  \<open>None\<close> is an array of NaN; \<^verbatim>\<open>np.arccos\<close> is NaN outside [-1, 1].\<close>

definition zaxis :: vec where
  "zaxis = (0, 0, 1)"

definition uniform3 :: "real \<Rightarrow> real \<Rightarrow> rng \<Rightarrow> error + (vec \<times> rng)" where
  "uniform3 low high r =
     (case uniform low high r of
        Inl e \<Rightarrow> Inl e
      | Inr (a1, r1) \<Rightarrow>
         (case uniform low high r1 of
            Inl e \<Rightarrow> Inl e
          | Inr (a2, r2) \<Rightarrow>
             (case uniform low high r2 of
                Inl e \<Rightarrow> Inl e
              | Inr (a3, r3) \<Rightarrow> Inr ((a1, a2, a3), r3))))"

definition snRotation :: "vec option \<Rightarrow> rng \<Rightarrow> error + ((vec option \<times> vec option) \<times> rng)" where
  "snRotation sn_direction r =
     (case (case sn_direction of None \<Rightarrow> uniform3 (- 1) 1 r | Some v \<Rightarrow> Inr (v, r)) of
        Inl e \<Rightarrow> Inl e
      | Inr (v, r1) \<Rightarrow>
         (let sn = unit_vector v;
              rotAxis = (case sn of None \<Rightarrow> None | Some s \<Rightarrow> unit_vector (cross zaxis s));
              rotAngle = (case sn of
                            None \<Rightarrow> None
                          | Some s \<Rightarrow> if - 1 \<le> dot s zaxis \<and> dot s zaxis \<le> 1
                                      then Some (arccos (dot s zaxis)) else None);
              rot = (case rotAngle of
                       None \<Rightarrow> None
                     | Some a \<Rightarrow> (case rotAxis of None \<Rightarrow> None | Some k \<Rightarrow> Some (smul a k)))
          in Inr ((sn, rot), r1)))"

text \<open>Lines 128-150: the constants, the couplings \<open>(ga, gv)\<close> of a flavor, the
  closure \<^verbatim>\<open>diff_xscn\<close> with the variables it captures as arguments, and
  \<^verbatim>\<open>maxKE\<close>. The divisions are Python float divisions.\<close>

definition WMA :: real where
  "WMA = 0.23122"

definition me :: real where
  "me = 0.510998910"

definition couplings :: "string \<Rightarrow> real \<times> real" where
  "couplings genFlavor =
     (if genFlavor = ''nue'' then (0.5, 2 * WMA + 1 / 2)
      else if genFlavor = ''nuebar'' then (- 0.5, 2 * WMA + 1 / 2)
      else if genFlavor = ''numu'' \<or> genFlavor = ''nutau'' then (- 0.5, 2 * WMA - 1 / 2)
      else (0.5, 2 * WMA - 1 / 2))"

definition diff_xscn :: "real \<Rightarrow> real \<Rightarrow> real \<Rightarrow> real \<Rightarrow> error + real" where
  "diff_xscn ga gv nuEnergy T =
     (if nuEnergy = 0 then Inl ZeroDivisionError
      else Inr ((gv + ga) ^ 2
                + (gv - ga) ^ 2 * (1 - T / nuEnergy) ^ 2
                + (ga ^ 2 - gv ^ 2) * (me * T / (nuEnergy ^ 2))))"

definition maxKE :: "real \<Rightarrow> error + real" where
  "maxKE nuEnergy = py_div (2 * nuEnergy ^ 2) (me + 2 * nuEnergy)"

text \<open>Lines 128-151: the recoil energy drawn against the cross section.\<close>

definition sampleRecoil :: "string \<Rightarrow> real \<Rightarrow> real \<Rightarrow> rng \<Rightarrow> error + (real \<times> rng)" where
  "sampleRecoil genFlavor nuEnergy eThreshold r =
     (case couplings genFlavor of (ga, gv) \<Rightarrow>
       (case diff_xscn ga gv nuEnergy 0 of
          Inl e \<Rightarrow> Inl e
        | Inr maxDiffXscn \<Rightarrow>
           (case maxKE nuEnergy of
              Inl e \<Rightarrow> Inl e
            | Inr maxKE_v \<Rightarrow>
               rejectionSampling (diff_xscn ga gv nuEnergy) eThreshold maxKE_v maxDiffXscn r)))"

text \<open>Line 152. A negative radicand makes the power complex, and the comparison of the
  assertion on the next line raises \<^verbatim>\<open>TypeError\<close>.\<close>

definition eCos :: "real \<Rightarrow> real \<Rightarrow> error + real" where
  "eCos nuEnergy eKE =
     (case py_div (nuEnergy + me) nuEnergy of
        Inl e \<Rightarrow> Inl e
      | Inr a \<Rightarrow>
         (case py_div eKE (eKE + 2 * me) of
            Inl e \<Rightarrow> Inl e
          | Inr q \<Rightarrow> if q < 0 then Inl TypeError else Inr (a * sqrt q)))"

text \<open>Lines 152-166: the recoil direction, the two assertions and the event.\<close>

definition composeEvent ::
  "string \<Rightarrow> real \<Rightarrow> vec option \<Rightarrow> vec option \<Rightarrow> real \<Rightarrow> rng \<Rightarrow> error + (event \<times> rng)" where
  "composeEvent genFlavor nuEnergy sn rot eKE r =
     (case eCos nuEnergy eKE of
        Inl e \<Rightarrow> Inl e
      | Inr eCos_v \<Rightarrow>
         if \<not> (eCos_v \<ge> - 1 \<and> eCos_v \<le> 1) then Inl (AssertionError_eCos eCos_v eKE nuEnergy)
         else (case uniform 0 (2 * pi) r of
                 Inl e \<Rightarrow> Inl e
               | Inr (ePhi, r1) \<Rightarrow>
                  (let eDir0 = (sqrt (1 - eCos_v ^ 2) * cos ePhi,
                                sqrt (1 - eCos_v ^ 2) * sin ePhi,
                                eCos_v);
                       eDir = (case rot of None \<Rightarrow> None | Some rv \<Rightarrow> Some (rot_apply rv eDir0))
                   in (case eDir of
                         None \<Rightarrow> Inl AssertionError_dot
                       | Some d \<Rightarrow>
                          (case sn of
                             None \<Rightarrow> Inl AssertionError_dot
                           | Some s \<Rightarrow>
                              if isclose (dot d s) eCos_v
                              then Inr (\<lparr> ev_flavor = genFlavor, ev_nuEnergy = nuEnergy,
                                          ev_sn_direction = s, ev_eKE = eKE, ev_eDir = d \<rparr>, r1)
                              else Inl AssertionError_dot)))))"

definition genEvent ::
  "eES_Gen \<Rightarrow> vec option \<Rightarrow> string option \<Rightarrow> real \<Rightarrow> real \<Rightarrow> rng \<Rightarrow> error + (event \<times> rng)" where
  "genEvent self sn_direction flavor eThreshold nuThreshold r =
     (case selectNu self flavor nuThreshold r of
        Inl e \<Rightarrow> Inl e
      | Inr ((genFlavor, nuEnergy), r1) \<Rightarrow>
         (case snRotation sn_direction r1 of
            Inl e \<Rightarrow> Inl e
          | Inr ((sn, rot), r2) \<Rightarrow>
             (case sampleRecoil genFlavor nuEnergy eThreshold r2 of
                Inl e \<Rightarrow> Inl e
              | Inr (eKE, r3) \<Rightarrow> composeEvent genFlavor nuEnergy sn rot eKE r3)))"

text \<open>A caller that makes a sequence of \<^verbatim>\<open>genEvent\<close> calls on one generator; an
  exception ends the sequence.\<close>

type_synonym call = "vec option \<times> string option \<times> real \<times> real"

fun genEvents :: "eES_Gen \<Rightarrow> call list \<Rightarrow> rng \<Rightarrow> (error + event) list" where
  "genEvents self [] r = []"
| "genEvents self ((sn_direction, flavor, eThreshold, nuThreshold) # calls) r =
     (case genEvent self sn_direction flavor eThreshold nuThreshold r of
        Inl e \<Rightarrow> [Inl e]
      | Inr (ev, r') \<Rightarrow> Inr ev # genEvents self calls r')"

subsection \<open>Concrete generator states used by the examples\<close>

definition late_tape :: "nat \<Rightarrow> real" where
  "late_tape n = (if n < 2000 then 0 else 1 / 2)"

definition late_rng :: rng where
  "late_rng = \<lparr> tape = late_tape, pos = 0 \<rparr>"

definition zero_rng :: rng where
  "zero_rng = \<lparr> tape = (\<lambda>n. 0), pos = 0 \<rparr>"

text \<open>The cross-section model in the words of the specification (section 4.5), against
  which the code is compared.\<close>

definition couplings_spec :: "string \<Rightarrow> (real \<times> real) option" where
  "couplings_spec flavor =
     (if flavor = ''nue'' then Some (0.5, 2 * 0.23122 + 0.5)
      else if flavor = ''nuebar'' then Some (- 0.5, 2 * 0.23122 + 0.5)
      else if flavor = ''numu'' \<or> flavor = ''nutau'' then Some (- 0.5, 2 * 0.23122 - 0.5)
      else if flavor = ''numubar'' \<or> flavor = ''nutaubar'' then Some (0.5, 2 * 0.23122 - 0.5)
      else None)"

definition diffXscn_spec :: "real \<times> real \<Rightarrow> real \<Rightarrow> real \<Rightarrow> real" where
  "diffXscn_spec g E T =
     (case g of (g_a, g_v) \<Rightarrow>
        (g_v + g_a)\<^sup>2 + (g_v - g_a)\<^sup>2 * (1 - T / E)\<^sup>2 + (g_a\<^sup>2 - g_v\<^sup>2) * (0.510998910 * T / E\<^sup>2))"

definition maxKE_spec :: "real \<Rightarrow> real" where
  "maxKE_spec E = 2 * E\<^sup>2 / (0.510998910 + 2 * E)"

definition demo_gen :: eES_Gen where
  "demo_gen = \<lparr> flavors = [''nue'', ''nuebar'', ''numu'', ''numubar'', ''nutau'', ''nutaubar''],
                nuEnergyBins = [1, 10],
                eventRates = (\<lambda>flavor. if flavor \<in> set [''nue'', ''nuebar'', ''numu'', ''numubar'',
                                                          ''nutau'', ''nutaubar'']
                                         then Some [1, 1] else None),
                totalRates = (\<lambda>flavor. if flavor \<in> set [''nue'', ''nuebar'', ''numu'', ''numubar'',
                                                          ''nutau'', ''nutaubar'']
                                         then Some 1 else None) \<rparr>"

definition ramp_gen :: eES_Gen where
  "ramp_gen = demo_gen \<lparr> nuEnergyBins := [1, 3, 4], eventRates := (\<lambda>flavor. Some [2, 6, 5]) \<rparr>"

definition demo_eCos :: real where
  "demo_eCos = (2 + me) / 2 * sqrt (1 / (1 + 2 * me))"

definition demo_event :: event where
  "demo_event = \<lparr> ev_flavor = ''nue'', ev_nuEnergy = 2, ev_sn_direction = (1, 0, 0), ev_eKE = 1,
                  ev_eDir = (demo_eCos, 0, - sqrt (1 - demo_eCos\<^sup>2)) \<rparr>"

definition demo_readFile :: "string \<Rightarrow> real list \<times> real list \<times> real" where
  "demo_readFile filename = ([1, 10], [1, 1], 1)"

definition demo_default_rng :: "int \<Rightarrow> nat \<Rightarrow> real" where
  "demo_default_rng seed n = 0"

definition demo_bad_eCos :: real where
  "demo_bad_eCos = (2 + me) / 2 * sqrt (- 3 / (- 3 + 2 * me))"

text \<open>A program that constructs a generator and makes a sequence of \<^verbatim>\<open>genEvent\<close>
  calls on it.\<close>

definition run ::
  "(string \<Rightarrow> real list \<times> real list \<times> real) \<Rightarrow> (int \<Rightarrow> nat \<Rightarrow> real) \<Rightarrow> (nat \<Rightarrow> real) \<Rightarrow>
   string \<Rightarrow> string \<Rightarrow> string \<Rightarrow> int \<Rightarrow> call list \<Rightarrow> error + (error + event) list" where
  "run readFile default_rng entropy dataDir flux detectorConfig seed calls =
     (case init readFile default_rng entropy dataDir flux detectorConfig seed of
        Inl e \<Rightarrow> Inl e
      | Inr (gen, r) \<Rightarrow> Inr (genEvents gen calls r))"

section \<open>Properties\<close>

subsection \<open>The rejection loop\<close>

declare rejectionLoop.simps [simp del]

lemma uniform_ok:
  "low \<le> high \<Longrightarrow> uniform low high r = Inr (low + (high - low) * tape r (pos r), advance 1 r)"
  by (simp add: uniform_def random_def advance_def)

lemma advance_advance: "advance m (advance n r) = advance (n + m) r"
  by (simp add: advance_def)

lemma loop_step:
  assumes "xmin \<le> xmax" "0 \<le> ymax"
  shows "rejectionLoop (\<lambda>x. Inr (f x)) xmin xmax ymax n r =
     (if \<not> rejected f xmin xmax ymax r 0 then Inr (x_at xmin xmax r 0, advance 2 r)
      else if n + 1 > 1000 then Inl RuntimeError_sampling
      else rejectionLoop (\<lambda>x. Inr (f x)) xmin xmax ymax (n + 1) (advance 2 r))"
  using assms
  by (subst rejectionLoop.simps) (simp add: uniform_ok rejected_def x_at_def y_at_def advance_def)

lemma x_at_advance: "x_at xmin xmax (advance 2 r) k = x_at xmin xmax r (Suc k)"
  by (simp add: x_at_def advance_def)

lemma y_at_advance: "y_at ymax (advance 2 r) k = y_at ymax r (Suc k)"
  by (simp add: y_at_def advance_def)

lemma rejected_advance:
  "rejected f xmin xmax ymax (advance 2 r) k = rejected f xmin xmax ymax r (Suc k)"
  by (simp add: rejected_def x_at_advance y_at_advance)

lemma loop_all_rejected:
  assumes "xmin \<le> xmax" "0 \<le> ymax"
  shows "n \<le> 1000 \<Longrightarrow> (\<forall>k. k + n \<le> 1000 \<longrightarrow> rejected f xmin xmax ymax r k) \<Longrightarrow>
     rejectionLoop (\<lambda>x. Inr (f x)) xmin xmax ymax n r = Inl RuntimeError_sampling"
proof (induction "1000 - n" arbitrary: n r)
  case 0
  then have "n = 1000" by simp
  moreover have "rejected f xmin xmax ymax r 0" using 0 by simp
  ultimately show ?case by (simp add: loop_step [OF assms])
next
  case (Suc d)
  have r0: "rejected f xmin xmax ymax r 0" using Suc.prems by simp
  have n: "n < 1000" using Suc.hyps by simp
  have "rejectionLoop (\<lambda>x. Inr (f x)) xmin xmax ymax (n + 1) (advance 2 r) = Inl RuntimeError_sampling"
  proof (rule Suc.hyps(1))
    show "d = 1000 - (n + 1)" using Suc.hyps by simp
    show "n + 1 \<le> 1000" using n by simp
    show "\<forall>k. k + (n + 1) \<le> 1000 \<longrightarrow> rejected f xmin xmax ymax (advance 2 r) k"
      using Suc.prems(2) by (simp add: rejected_advance)
  qed
  then show ?case using r0 n by (simp add: loop_step [OF assms])
qed

lemma loop_first_accepted:
  assumes "xmin \<le> xmax" "0 \<le> ymax"
  shows "k + n \<le> 1000 \<Longrightarrow> \<not> rejected f xmin xmax ymax r k \<Longrightarrow>
     (\<forall>j<k. rejected f xmin xmax ymax r j) \<Longrightarrow>
     rejectionLoop (\<lambda>x. Inr (f x)) xmin xmax ymax n r
       = Inr (x_at xmin xmax r k, advance (2 * Suc k) r)"
proof (induction k arbitrary: n r)
  case 0
  then show ?case by (simp add: loop_step [OF assms])
next
  case (Suc k)
  have r0: "rejected f xmin xmax ymax r 0" using Suc.prems by simp
  have n: "n < 1000" using Suc.prems by simp
  have "rejectionLoop (\<lambda>x. Inr (f x)) xmin xmax ymax (n + 1) (advance 2 r)
          = Inr (x_at xmin xmax (advance 2 r) k, advance (2 * Suc k) (advance 2 r))"
  proof (rule Suc.IH)
    show "k + (n + 1) \<le> 1000" using Suc.prems by simp
    show "\<not> rejected f xmin xmax ymax (advance 2 r) k"
      using Suc.prems by (simp add: rejected_advance)
    show "\<forall>j<k. rejected f xmin xmax ymax (advance 2 r) j"
      using Suc.prems by (simp add: rejected_advance)
  qed
  then show ?case using r0 n by (simp add: loop_step [OF assms] x_at_advance advance_advance)
qed

lemma sampling_all_rejected:
  assumes "xmin \<le> xmax" "0 \<le> ymax" "\<forall>k<1001. rejected f xmin xmax ymax r k"
  shows "rejectionSampling (\<lambda>x. Inr (f x)) xmin xmax ymax r = Inl RuntimeError_sampling"
  unfolding rejectionSampling_def
  using assms(3) by (intro loop_all_rejected [OF assms(1,2)]) auto

lemma sampling_first_accepted:
  assumes "xmin \<le> xmax" "0 \<le> ymax" "k < 1001" "\<not> rejected f xmin xmax ymax r k"
    "\<forall>j<k. rejected f xmin xmax ymax r j"
  shows "rejectionSampling (\<lambda>x. Inr (f x)) xmin xmax ymax r
           = Inr (x_at xmin xmax r k, advance (2 * Suc k) r)"
  unfolding rejectionSampling_def
  using assms(3-) by (intro loop_first_accepted [OF assms(1,2)]) auto

text \<open>
  C2 (as amended). For bounds the generator accepts (\<open>xmin \<le> xmax\<close>, \<open>0 \<le> ymax\<close>),
  \<^verbatim>\<open>rejectionSampling\<close> raises the convergence error exactly when the first 1001
  candidates are all rejected; when some candidate among the first 1001 is accepted, it
  returns the first accepted one, and the generator has made two draws per candidate.
\<close>

theorem rejectionSampling_cap:
  assumes "xmin \<le> xmax" and "0 \<le> ymax"
  shows "(rejectionSampling (\<lambda>x. Inr (f x)) xmin xmax ymax r = Inl RuntimeError_sampling
            \<longleftrightarrow> (\<forall>k<1001. rejected f xmin xmax ymax r k))
       \<and> (\<forall>k<1001. \<not> rejected f xmin xmax ymax r k \<and> (\<forall>j<k. rejected f xmin xmax ymax r j)
            \<longrightarrow> rejectionSampling (\<lambda>x. Inr (f x)) xmin xmax ymax r
                  = Inr (x_at xmin xmax r k, advance (2 * Suc k) r))"
proof -
  let ?rs = "rejectionSampling (\<lambda>x. Inr (f x)) xmin xmax ymax r"
  have "\<forall>k<1001. rejected f xmin xmax ymax r k" if err: "?rs = Inl RuntimeError_sampling"
  proof (rule ccontr)
    assume "\<not> (\<forall>k<1001. rejected f xmin xmax ymax r k)"
    then obtain k where k: "k < 1001" "\<not> rejected f xmin xmax ymax r k" by blast
    define k0 where "k0 = (LEAST i. \<not> rejected f xmin xmax ymax r i)"
    have a: "\<not> rejected f xmin xmax ymax r k0"
      unfolding k0_def using k(2) by (rule LeastI)
    have b: "\<forall>j<k0. rejected f xmin xmax ymax r j"
      unfolding k0_def using not_less_Least by blast
    have "k0 \<le> k" unfolding k0_def using k(2) by (rule Least_le)
    then have c: "k0 < 1001" using k(1) by simp
    from sampling_first_accepted [OF assms c a b] err show False by simp
  qed
  moreover have "?rs = Inl RuntimeError_sampling" if "\<forall>k<1001. rejected f xmin xmax ymax r k"
    using that by (rule sampling_all_rejected [OF assms])
  moreover have "?rs = Inr (x_at xmin xmax r k, advance (2 * Suc k) r)"
    if "k < 1001" "\<not> rejected f xmin xmax ymax r k" "\<forall>j<k. rejected f xmin xmax ymax r j" for k
    using that by (rule sampling_first_accepted [OF assms])
  ultimately show ?thesis by blast
qed

theorem rejectionSampling_cap_witness:
  "(0::real) \<le> 1 \<and> (0::real) \<le> 1
   \<and> rejectionSampling (\<lambda>x. Inr 1) 0 1 1 zero_rng = Inr (0, advance 2 zero_rng)"
proof -
  have a: "\<not> rejected (\<lambda>x. 1) 0 1 1 zero_rng 0"
    by (simp add: rejected_def x_at_def y_at_def zero_rng_def)
  have b: "\<forall>j<0::nat. rejected (\<lambda>x. 1) 0 1 1 zero_rng j" by simp
  have c: "(0::nat) < 1001" by simp
  have h1: "(0::real) \<le> 1" by simp
  from rejectionSampling_cap [OF h1 h1, of "\<lambda>x. 1" zero_rng]
  have "\<forall>k<1001. \<not> rejected (\<lambda>x. 1) 0 1 1 zero_rng k
            \<and> (\<forall>j<k. rejected (\<lambda>x. 1) 0 1 1 zero_rng j)
          \<longrightarrow> rejectionSampling (\<lambda>x. Inr 1) 0 1 1 zero_rng
                = Inr (x_at 0 1 zero_rng k, advance (2 * Suc k) zero_rng)"
    by (rule conjunct2)
  with a b c have "rejectionSampling (\<lambda>x. Inr 1) 0 1 1 zero_rng
      = Inr (x_at 0 1 zero_rng 0, advance (2 * Suc 0) zero_rng)"
    by blast
  moreover have "x_at 0 1 zero_rng 0 = 0" by (simp add: x_at_def zero_rng_def)
  ultimately show ?thesis by simp
qed

text \<open>
  The claim as stated fails: here the first 1000 candidates are rejected (the generator
  ends at position 2002, after 1001 candidates) and the call returns the 1001st.
\<close>

theorem rejectionSampling_cap_counterexample:
  "rejected (\<lambda>x. x) 0 2 1 late_rng 0 \<and> rejected (\<lambda>x. x) 0 2 1 late_rng 999
   \<and> rejectionSampling Inr 0 2 1 late_rng = Inr (1, advance 2002 late_rng)"
proof -
  have rej: "\<forall>j<1000. rejected (\<lambda>x. x) 0 2 1 late_rng j"
    by (simp add: rejected_def x_at_def y_at_def late_rng_def late_tape_def)
  have acc: "\<not> rejected (\<lambda>x. x) 0 2 1 late_rng 1000"
    by (simp add: rejected_def x_at_def y_at_def late_rng_def late_tape_def)
  have "rejectionSampling (\<lambda>x. Inr ((\<lambda>x. x) x)) 0 2 1 late_rng
          = Inr (x_at 0 2 late_rng 1000, advance (2 * Suc 1000) late_rng)"
    by (rule sampling_first_accepted [OF _ _ _ acc rej]) simp_all
  moreover have "x_at 0 2 late_rng 1000 = 1"
    by (simp add: x_at_def late_rng_def late_tape_def)
  moreover have "(\<lambda>x::real. Inr x :: error + real) = Inr" by (rule refl)
  ultimately show ?thesis using rej by simp
qed


subsection \<open>The cross-section model\<close>

lemma couplings_spec_valid:
  "flavor \<in> set [''nue'', ''nuebar'', ''numu'', ''numubar'', ''nutau'', ''nutaubar'']
     \<Longrightarrow> couplings_spec flavor = Some (couplings flavor)"
  by (auto simp: couplings_spec_def couplings_def WMA_def)

lemma diff_xscn_spec: "E \<noteq> 0 \<Longrightarrow> diff_xscn ga gv E T = Inr (diffXscn_spec (ga, gv) E T)"
  by (simp add: diff_xscn_def diffXscn_spec_def me_def)

lemma maxKE_eq_spec: "0.510998910 + 2 * E \<noteq> 0 \<Longrightarrow> maxKE E = Inr (maxKE_spec E)"
  by (simp add: maxKE_def maxKE_spec_def py_div_def me_def)

lemma sampleRecoil_spec:
  assumes "E \<noteq> 0" "0.510998910 + 2 * E \<noteq> 0"
  shows "sampleRecoil flavor E eThreshold r =
           rejectionSampling (\<lambda>T. Inr (diffXscn_spec (couplings flavor) E T))
             eThreshold (maxKE_spec E) (diffXscn_spec (couplings flavor) E 0) r"
proof -
  obtain ga gv where g: "couplings flavor = (ga, gv)" by (cases "couplings flavor")
  have "diff_xscn ga gv E = (\<lambda>T. Inr (diffXscn_spec (ga, gv) E T))"
    using assms(1) by (intro ext diff_xscn_spec)
  then show ?thesis
    using assms by (simp add: sampleRecoil_def g maxKE_eq_spec)
qed

text \<open>
  C7 (as amended). For each of the six flavors the couplings of the code are those of the
  table; the function sampled for the recoil energy is the shape \<open>diffXscn\<close> of the
  specification, over \<open>[eThreshold, maxKE(E\<nu>)]\<close> with \<open>maxKE(E\<nu>) = 2 E\<nu>\<^sup>2 / (m\<^sub>e + 2 E\<nu>)\<close>
  and the bound \<open>diffXscn(0; E\<nu>)\<close>. For nue and \<open>E\<nu> = 10\<close>:
  \<open>diffXscn(0; 10) = 1.46244\<^sup>2 + 0.46244\<^sup>2\<close> and \<open>maxKE(10) = 200 / 20.51099891\<close>.
\<close>

theorem cross_section_model:
  assumes "flavor \<in> set [''nue'', ''nuebar'', ''numu'', ''numubar'', ''nutau'', ''nutaubar'']"
    and "E \<noteq> 0" and "0.510998910 + 2 * E \<noteq> 0"
  shows "couplings_spec flavor = Some (couplings flavor)
       \<and> diff_xscn (fst (couplings flavor)) (snd (couplings flavor)) E T
           = Inr (diffXscn_spec (couplings flavor) E T)
       \<and> maxKE E = Inr (maxKE_spec E)
       \<and> sampleRecoil flavor E eThreshold r =
           rejectionSampling (\<lambda>T. Inr (diffXscn_spec (couplings flavor) E T))
             eThreshold (maxKE_spec E) (diffXscn_spec (couplings flavor) E 0) r
       \<and> couplings ''nue'' = (0.5, 0.96244)
       \<and> diffXscn_spec (couplings ''nue'') 10 0 = 1.46244\<^sup>2 + 0.46244\<^sup>2
       \<and> maxKE_spec 10 = 200 / 20.51099891"
proof -
  have nue: "couplings ''nue'' = (0.5, 0.96244)"
    by (simp add: couplings_def WMA_def)
  have "diffXscn_spec (0.5, 0.96244) 10 0 = 1.46244\<^sup>2 + 0.46244\<^sup>2"
    by (simp add: diffXscn_spec_def)
  moreover have "maxKE_spec 10 = 200 / 20.51099891"
    by (simp add: maxKE_spec_def)
  ultimately show ?thesis
    using couplings_spec_valid [OF assms(1)] diff_xscn_spec [OF assms(2)]
      maxKE_eq_spec [OF assms(3)] sampleRecoil_spec [OF assms(2,3)] nue
    by simp
qed

theorem cross_section_model_witness:
  "couplings_spec ''numu'' = Some (- 0.5, - 0.03756)
   \<and> diff_xscn (- 0.5) (- 0.03756) 10 0 = Inr (0.53756\<^sup>2 + 0.46244\<^sup>2)
   \<and> maxKE 10 = Inr (200 / 20.51099891)"
proof -
  have "''numu'' \<in> set [''nue'', ''nuebar'', ''numu'', ''numubar'', ''nutau'', ''nutaubar'']"
    by simp
  from cross_section_model [OF this, of 10 0] show ?thesis
    by (simp add: couplings_def WMA_def diffXscn_spec_def maxKE_spec_def power2_eq_square)
qed

text \<open>
  The two values of the claim as stated are not those of the code: \<open>diffXscn(0; 10)\<close> has
  the second term \<open>(g\<^sub>v - g\<^sub>a)\<^sup>2\<close> as well, and \<open>m\<^sub>e + 20\<close> is 20.51099891, not 20.511.
\<close>

theorem cross_section_model_counterexample:
  "diff_xscn (fst (couplings ''nue'')) (snd (couplings ''nue'')) 10 0 \<noteq> Inr (1.46244\<^sup>2)
   \<and> maxKE 10 \<noteq> Inr (200 / 20.511)"
  by (simp add: couplings_def WMA_def diff_xscn_def maxKE_def py_div_def me_def power2_eq_square)

subsection \<open>Interpolation of the rate table\<close>

lemma sorted_wrt_less_nth_hd: "sorted_wrt (<) xp \<Longrightarrow> i < length xp \<Longrightarrow> hd xp \<le> (xp ! i :: real)"
  by (cases xp; cases i) (auto simp: less_imp_le)

lemma interp_scan_segment:
  "sorted_wrt (<) xp \<Longrightarrow> length fp = length xp \<Longrightarrow> Suc i < length xp \<Longrightarrow>
   xp ! i \<le> x \<Longrightarrow> x < xp ! Suc i \<Longrightarrow>
   interp_scan x xp fp =
     (if xp ! i = x then fp ! i
      else (fp ! Suc i - fp ! i) / (xp ! Suc i - xp ! i) * (x - xp ! i) + fp ! i)"
proof (induction x xp fp arbitrary: i rule: interp_scan.induct)
  case (1 x x0 x1 xs y0 y1 ys)
  show ?case
  proof (cases i)
    case 0
    with "1.prems" show ?thesis by simp
  next
    case (Suc j)
    have "sorted_wrt (<) (x1 # xs)" "j < length (x1 # xs)"
      using "1.prems"(1,3) Suc by auto
    from sorted_wrt_less_nth_hd [OF this] have "x1 \<le> (x1 # xs) ! j" by simp
    then have nlt: "\<not> x < x1" using "1.prems"(4) Suc by simp
    have "interp_scan x (x1 # xs) (y1 # ys) =
        (if (x1 # xs) ! j = x then (y1 # ys) ! j
         else ((y1 # ys) ! Suc j - (y1 # ys) ! j) / ((x1 # xs) ! Suc j - (x1 # xs) ! j)
                * (x - (x1 # xs) ! j) + (y1 # ys) ! j)"
      using "1.prems" Suc nlt by (intro "1.IH") auto
    then show ?thesis using nlt Suc by simp
  qed
qed simp_all

lemma interp_scan_last:
  "sorted_wrt (<) xp \<Longrightarrow> length fp = length xp \<Longrightarrow> xp \<noteq> [] \<Longrightarrow>
   interp_scan (last xp) xp fp = last fp"
proof (induction "last xp" xp fp rule: interp_scan.induct)
  case (1 x0 x1 xs y0 y1 ys)
  have "x1 \<le> last (x1 # xs)"
    using "1.prems"(1) by (cases "xs = []") (auto simp: less_imp_le)
  then have "\<not> last (x0 # x1 # xs) < x1" by simp
  moreover have "interp_scan (last (x1 # xs)) (x1 # xs) (y1 # ys) = last (y1 # ys)"
    using "1.prems" \<open>\<not> last (x0 # x1 # xs) < x1\<close> by (intro "1.hyps") auto
  ultimately show ?case by simp
next
  case (2 x0 y0 ys)
  then show ?case by simp
qed simp_all

lemma sorted_wrt_less_nth_last:
  "sorted_wrt (<) xp \<Longrightarrow> i < length xp \<Longrightarrow> (xp ! i :: real) \<le> last xp"
proof -
  assume s: "sorted_wrt (<) xp" and i: "i < length xp"
  then have ne: "xp \<noteq> []" by auto
  show ?thesis
  proof (cases "i = length xp - 1")
    case True
    then show ?thesis using ne by (simp add: last_conv_nth)
  next
    case False
    then have "i < length xp - 1" using i by simp
    then have "xp ! i < xp ! (length xp - 1)"
      using s i by (simp add: sorted_wrt_nth_less)
    then show ?thesis using ne by (simp add: last_conv_nth)
  qed
qed

lemma np_interp_edge:
  assumes "sorted_wrt (<) xp" "length fp = length xp" "i < length xp"
  shows "np_interp (xp ! i) xp fp = Inr (fp ! i)"
proof -
  have ne: "xp \<noteq> []" using assms(3) by auto
  have hd: "\<not> xp ! i < hd xp" using sorted_wrt_less_nth_hd [OF assms(1,3)] by simp
  have la: "\<not> xp ! i > last xp" using sorted_wrt_less_nth_last [OF assms(1,3)] by simp
  show ?thesis
  proof (cases "Suc i < length xp")
    case True
    have "xp ! i < xp ! Suc i" using assms(1) True by (simp add: sorted_wrt_nth_less)
    then have "interp_scan (xp ! i) xp fp = fp ! i"
      using interp_scan_segment [OF assms(1,2) True, of "xp ! i"] by simp
    then show ?thesis using ne hd la assms(2) by (simp add: np_interp_def)
  next
    case False
    then have i: "i = length xp - 1" using assms(3) by simp
    have fne: "fp \<noteq> []" using ne assms(2) by auto
    have "xp ! i = last xp" "fp ! i = last fp"
      using i ne fne assms(2) last_conv_nth [of xp] last_conv_nth [of fp] by auto
    then show ?thesis
      using interp_scan_last [OF assms(1,2) ne] ne hd la assms(2) by (simp add: np_interp_def)
  qed
qed

lemma np_interp_below:
  "xp \<noteq> [] \<Longrightarrow> sorted_wrt (<) xp \<Longrightarrow> length fp = length xp \<Longrightarrow> x < hd xp \<Longrightarrow>
   np_interp x xp fp = Inr (hd fp)"
proof -
  assume a: "xp \<noteq> []" "sorted_wrt (<) xp" "length fp = length xp" "x < hd xp"
  have "hd xp \<le> last xp"
    using sorted_wrt_less_nth_last [OF a(2), of 0] a(1) by (simp add: hd_conv_nth)
  then show ?thesis using a by (simp add: np_interp_def)
qed

lemma np_interp_above:
  "xp \<noteq> [] \<Longrightarrow> length fp = length xp \<Longrightarrow> x > last xp \<Longrightarrow> np_interp x xp fp = Inr (last fp)"
  by (simp add: np_interp_def)

lemma np_interp_between:
  assumes "sorted_wrt (<) xp" "length fp = length xp" "Suc i < length xp"
    "xp ! i \<le> x" "x \<le> xp ! Suc i"
  shows "np_interp x xp fp =
           Inr (fp ! i + (fp ! Suc i - fp ! i) / (xp ! Suc i - xp ! i) * (x - xp ! i))"
proof (cases "x = xp ! Suc i")
  case True
  have "xp ! i < xp ! Suc i" using assms(1,3) by (simp add: sorted_wrt_nth_less)
  then show ?thesis
    using np_interp_edge [OF assms(1,2,3)] True by simp
next
  case False
  then have lt: "x < xp ! Suc i" using assms(5) by simp
  have ne: "xp \<noteq> []" using assms(3) by auto
  have "hd xp \<le> xp ! i" using sorted_wrt_less_nth_hd [OF assms(1)] assms(3) by simp
  then have hd: "\<not> x < hd xp" using assms(4) by simp
  have "xp ! Suc i \<le> last xp" using sorted_wrt_less_nth_last [OF assms(1,3)] .
  then have la: "\<not> x > last xp" using lt by simp
  show ?thesis
    using interp_scan_segment [OF assms(1,2,3,4) lt] ne hd la assms(2)
    by (simp add: np_interp_def)
qed

text \<open>
  C5. For a valid flavor whose rate table has the length of the strictly increasing energy
  bins, \<^verbatim>\<open>getEventRate\<close> is the piecewise-linear interpolant of the table: it returns the
  tabulated rate at every bin edge, the linear interpolation between two neighbouring
  edges, the first rate below the first bin and the last rate above the last bin. It
  takes the generator's tables and returns a number only, so no state changes.
\<close>

theorem getEventRate_interp:
  assumes "flavor \<in> set (flavors self)"
    and "eventRates self flavor = Some rates"
    and "sorted_wrt (<) (nuEnergyBins self)"
    and "length rates = length (nuEnergyBins self)"
  shows "(\<forall>i < length (nuEnergyBins self).
            getEventRate self flavor (nuEnergyBins self ! i) = Inr (rates ! i))
       \<and> (\<forall>i x. Suc i < length (nuEnergyBins self)
              \<and> nuEnergyBins self ! i \<le> x \<and> x \<le> nuEnergyBins self ! Suc i \<longrightarrow>
            getEventRate self flavor x =
              Inr (rates ! i + (rates ! Suc i - rates ! i)
                     / (nuEnergyBins self ! Suc i - nuEnergyBins self ! i)
                     * (x - nuEnergyBins self ! i)))
       \<and> (\<forall>x. nuEnergyBins self \<noteq> [] \<and> x < hd (nuEnergyBins self) \<longrightarrow>
            getEventRate self flavor x = Inr (hd rates))
       \<and> (\<forall>x. nuEnergyBins self \<noteq> [] \<and> x > last (nuEnergyBins self) \<longrightarrow>
            getEventRate self flavor x = Inr (last rates))"
  using assms np_interp_edge [OF assms(3,4)] np_interp_between [OF assms(3,4)]
    np_interp_below [OF _ assms(3,4)] np_interp_above [OF _ assms(4)]
  by (simp add: getEventRate_def)

theorem getEventRate_interp_witness:
  "getEventRate ramp_gen ''nue'' 3 = Inr 6
   \<and> getEventRate ramp_gen ''nue'' 2 = Inr 4
   \<and> getEventRate ramp_gen ''nue'' 0 = Inr 2
   \<and> getEventRate ramp_gen ''nue'' 7 = Inr 5"
proof -
  have a: "''nue'' \<in> set (flavors ramp_gen)" by (simp add: ramp_gen_def demo_gen_def)
  have b: "eventRates ramp_gen ''nue'' = Some [2, 6, 5]" by (simp add: ramp_gen_def)
  have c: "sorted_wrt (<) (nuEnergyBins ramp_gen)" by (simp add: ramp_gen_def)
  have d: "length [2, 6, 5 :: real] = length (nuEnergyBins ramp_gen)" by (simp add: ramp_gen_def)
  have bins: "nuEnergyBins ramp_gen = [1, 3, 4]" by (simp add: ramp_gen_def)
  note t = getEventRate_interp [OF a b c d, unfolded bins]
  have "getEventRate ramp_gen ''nue'' ([1, 3, 4] ! 1) = Inr ([2, 6, 5] ! 1)"
    using t [THEN conjunct1, rule_format, of 1] by simp
  moreover have "getEventRate ramp_gen ''nue'' 2 =
      Inr ([2, 6, 5] ! 0 + ([2, 6, 5] ! Suc 0 - [2, 6, 5] ! 0)
             / ([1, 3, 4] ! Suc 0 - [1, 3, 4] ! 0) * (2 - [1, 3, 4] ! 0))"
    using t [THEN conjunct2, THEN conjunct1, rule_format, of 0 2] by simp
  moreover have "getEventRate ramp_gen ''nue'' 0 = Inr (hd [2, 6, 5])"
    using t [THEN conjunct2, THEN conjunct2, THEN conjunct1, rule_format, of 0] by simp
  moreover have "getEventRate ramp_gen ''nue'' 7 = Inr (last [2, 6, 5])"
    using t [THEN conjunct2, THEN conjunct2, THEN conjunct2, rule_format, of 7] by simp
  ultimately show ?thesis by simp
qed

subsection \<open>Rotations and unit vectors\<close>

lemma linalg_norm_nonneg: "0 \<le> linalg_norm v"
  by (cases v) simp

lemma linalg_norm_smul: "linalg_norm (smul c v) = \<bar>c\<bar> * linalg_norm v"
proof -
  obtain a1 a2 a3 where v: "v = (a1, a2, a3)" by (cases v) auto
  have "c * a1 * (c * a1) + c * a2 * (c * a2) + c * a3 * (c * a3)
          = c\<^sup>2 * (a1 * a1 + a2 * a2 + a3 * a3)"
    by (simp add: power2_eq_square algebra_simps)
  then show ?thesis by (simp add: v real_sqrt_mult)
qed

lemma unit_vector_unit: "unit_vector v = Some s \<Longrightarrow> linalg_norm s = 1"
  using linalg_norm_nonneg [of v]
  by (auto simp: unit_vector_def linalg_norm_smul split: if_splits)

lemma unit_vector_idem: "unit_vector v = Some s \<Longrightarrow> unit_vector s = Some s"
proof -
  assume a: "unit_vector v = Some s"
  have "linalg_norm s = 1" using a by (rule unit_vector_unit)
  then show ?thesis by (cases s) (simp add: unit_vector_def)
qed

lemma unit_vector_None_iff: "unit_vector v = None \<longleftrightarrow> linalg_norm v = 0"
  by (simp add: unit_vector_def)

lemma unit_components:
  assumes "linalg_norm (a, b, c) = 1"
  shows "a\<^sup>2 + b\<^sup>2 + c\<^sup>2 = 1"
proof -
  have "sqrt (a\<^sup>2 + b\<^sup>2 + c\<^sup>2) = 1" using assms by (simp add: power2_eq_square)
  then show ?thesis by (simp add: real_sqrt_eq_1_iff)
qed

text \<open>The rotation built from a unit vector \<open>(a, b, c)\<close> off the z axis, in components.\<close>

lemma rot_apply_components:
  assumes u: "a\<^sup>2 + b\<^sup>2 + c\<^sup>2 = 1" and off: "a \<noteq> 0 \<or> b \<noteq> 0"
  defines "n \<equiv> sqrt (a\<^sup>2 + b\<^sup>2)"
  defines "w \<equiv> \<lambda>x y. (1 - c) * (a * y - b * x) / (a\<^sup>2 + b\<^sup>2)"
  shows "rot_apply (smul (arccos c) (smul (1 / n) (- b, a, 0))) (x, y, z) =
           (c * x + a * z + w x y * (- b), c * y + b * z + w x y * a, c * z - b * y - a * x)"
    and "w x y * (1 + c) = a * y - b * x"
proof -
  have pos: "0 < a\<^sup>2 + b\<^sup>2"
    using off by (metis add_pos_nonneg add_nonneg_pos zero_less_power2 zero_le_power2)
  then have n0: "0 < n" by (simp add: n_def)
  have n2: "n\<^sup>2 = a\<^sup>2 + b\<^sup>2" using pos by (simp add: n_def)
  have c2: "c\<^sup>2 < 1" using u pos by linarith
  then have cb: "- 1 < c" "c < 1"
    using abs_square_less_1 [of c] by auto
  have th0: "0 < arccos c" using cb by (simp add: arccos_lt_bounded)
  have kn: "linalg_norm (smul (1 / n) (- b, a, 0)) = 1"
  proof -
    have "b * b + a * a = n\<^sup>2" using n2 by (simp add: power2_eq_square)
    then have "sqrt (b * b + a * a) = n" using n0 by (simp add: real_sqrt_unique)
    then have "linalg_norm (- b, a, 0) = n" by simp
    then have "linalg_norm (smul (1 / n) (- b, a, 0)) = \<bar>1 / n\<bar> * n"
      by (simp only: linalg_norm_smul)
    then show ?thesis using n0 by simp
  qed
  have an: "linalg_norm (smul (arccos c) (smul (1 / n) (- b, a, 0))) = arccos c"
    using th0 by (simp add: linalg_norm_smul [of "arccos c"] kn del: smul.simps)
  have ax: "smul (1 / arccos c) (smul (arccos c) (smul (1 / n) (- b, a, 0)))
              = (- b / n, a / n, 0)"
    using th0 by simp
  have co: "cos (arccos c) = c" using cb by (simp add: cos_arccos)
  have "sin (arccos c) = sqrt (1 - c\<^sup>2)" using cb by (simp add: sin_arccos)
  also have "1 - c\<^sup>2 = a\<^sup>2 + b\<^sup>2" using u by simp
  finally have si: "sin (arccos c) = n" by (simp add: n_def)
  have n2': "n * n = a\<^sup>2 + b\<^sup>2" using n2 by (simp add: power2_eq_square)
  have q: "(1 - c) * ((- b / n) * x + (a / n) * y) * (t / n) = w x y * t" for t
  proof -
    have "(1 - c) * ((- b / n) * x + (a / n) * y) * (t / n)
            = (1 - c) * (a * y - b * x) * t / (n * n)"
      using n0 by (simp add: field_simps)
    then show ?thesis by (simp add: n2' w_def)
  qed
  have "rot_apply (smul (arccos c) (smul (1 / n) (- b, a, 0))) (x, y, z) =
     (c * x + n * ((a / n) * z) + (1 - c) * ((- b / n) * x + (a / n) * y) * (- b / n),
      c * y + n * (- (- b / n) * z) + (1 - c) * ((- b / n) * x + (a / n) * y) * (a / n),
      c * z + n * ((- b / n) * y - (a / n) * x))"
    unfolding rot_apply_def Let_def an ax co si
    using th0 by simp
  also have "\<dots> = (c * x + a * z + w x y * (- b), c * y + b * z + w x y * a, c * z - b * y - a * x)"
  proof -
    have e1: "n * ((a / n) * z) = a * z" "n * (- (- b / n) * z) = b * z"
      "n * ((- b / n) * y - (a / n) * x) = - b * y - a * x"
      using n0 by (simp_all add: field_simps)
    show ?thesis
      by (simp only: q [of "- b"] q [of a] e1) simp
  qed
  finally show "rot_apply (smul (arccos c) (smul (1 / n) (- b, a, 0))) (x, y, z) =
           (c * x + a * z + w x y * (- b), c * y + b * z + w x y * a, c * z - b * y - a * x)" .
  have f: "(1 - c) * (1 + c) = a\<^sup>2 + b\<^sup>2"
    using u by (simp add: algebra_simps power2_eq_square)
  have g: "(1 - c) * Y / D * (1 + c) = ((1 - c) * (1 + c)) * Y / D" for Y D :: real
    by simp
  have "w x y * (1 + c) = ((1 - c) * (1 + c)) * (a * y - b * x) / (a\<^sup>2 + b\<^sup>2)"
    unfolding w_def by (rule g)
  also have "\<dots> = a * y - b * x" unfolding f using pos by simp
  finally show "w x y * (1 + c) = a * y - b * x" .
qed

lemma rot_dot_aux:
  fixes a b c x y z w :: real
  assumes "a\<^sup>2 + b\<^sup>2 + c\<^sup>2 = 1"
  shows "(c * x + a * z + w * (- b)) * a + (c * y + b * z + w * a) * b
           + (c * z - b * y - a * x) * c = z"
proof -
  have "(c * x + a * z + w * (- b)) * a + (c * y + b * z + w * a) * b
           + (c * z - b * y - a * x) * c = (a\<^sup>2 + b\<^sup>2 + c\<^sup>2) * z"
    by (simp add: algebra_simps power2_eq_square)
  then show ?thesis using assms(1) by simp
qed

lemma rot_norm_aux:
  fixes a b c x y z w :: real
  assumes u: "a\<^sup>2 + b\<^sup>2 + c\<^sup>2 = 1" and w: "w * (1 + c) = a * y - b * x"
  shows "(c * x + a * z + w * (- b)) * (c * x + a * z + w * (- b))
       + (c * y + b * z + w * a) * (c * y + b * z + w * a)
       + (c * z - b * y - a * x) * (c * z - b * y - a * x) = x * x + y * y + z * z"
  using u w by algebra

subsection \<open>The stages of genEvent\<close>

lemma sum_case_Inr:
  "(case m of Inl e \<Rightarrow> Inl e | Inr x \<Rightarrow> f x) = Inr y \<longleftrightarrow> (\<exists>x. m = Inr x \<and> f x = Inr y)"
  by (cases m) auto

lemma option_case_Inr:
  "(case m of None \<Rightarrow> Inl e | Some x \<Rightarrow> f x) = Inr y \<longleftrightarrow> (\<exists>x. m = Some x \<and> f x = Inr y)"
  by (cases m) auto

lemma if_Inl_Inr: "(if c then Inl e else t) = Inr y \<longleftrightarrow> \<not> c \<and> t = Inr y"
  by simp

lemma rng_ok_tape: "tape r' = tape r \<Longrightarrow> rng_ok r' = rng_ok r"
  by (simp add: rng_ok_def)

lemma uniform_result:
  assumes "uniform low high r = Inr (x, r')"
  shows "low \<le> high" and "x = low + (high - low) * tape r (pos r)" and "r' = advance 1 r"
  using assms by (auto simp: uniform_def random_def advance_def split: if_splits)

lemma advance_tape [simp]: "tape (advance n r) = tape r"
  by (simp add: advance_def)

lemma advance_pos [simp]: "pos (advance n r) = pos r + n"
  by (simp add: advance_def)

lemma rejectionLoop_result:
  "rejectionLoop func xmin xmax ymax n r = Inr (x, r') \<Longrightarrow>
     tape r' = tape r \<and> xmin \<le> xmax \<and> (\<exists>k. x = xmin + (xmax - xmin) * tape r k)"
proof (induction func xmin xmax ymax n r rule: rejectionLoop.induct)
  case (1 func xmin xmax ymax nIter r)
  from "1.prems" obtain x1 r1 where u1: "uniform xmin xmax r = Inr (x1, r1)"
    by (subst (asm) rejectionLoop.simps) (auto split: sum.splits)
  from "1.prems" u1 obtain y r2 where u2: "uniform 0 ymax r1 = Inr (y, r2)"
    by (subst (asm) rejectionLoop.simps) (auto split: sum.splits)
  from "1.prems" u1 u2 obtain fx where f: "func x1 = Inr fx"
    by (subst (asm) rejectionLoop.simps) (auto split: sum.splits)
  note a = uniform_result [OF u1] and b = uniform_result [OF u2]
  have t2: "tape r2 = tape r" using a(3) b(3) by simp
  show ?case
  proof (cases "y < fx")
    case True
    then have "x = x1" "r' = r2"
      using "1.prems" u1 u2 f by (subst (asm) rejectionLoop.simps, simp)+
    then show ?thesis using a t2 by auto
  next
    case False
    then have n: "\<not> nIter + 1 > 1000"
      and rec: "rejectionLoop func xmin xmax ymax (nIter + 1) r2 = Inr (x, r')"
      using "1.prems" u1 u2 f by (subst (asm) rejectionLoop.simps, simp split: if_splits)+
    have "tape r' = tape r2 \<and> xmin \<le> xmax \<and> (\<exists>k. x = xmin + (xmax - xmin) * tape r2 k)"
      using u1 u2 f False n rec by (intro "1.IH") auto
    then show ?thesis using t2 by simp
  qed
qed

lemma rejectionSampling_result:
  assumes "rejectionSampling func xmin xmax ymax r = Inr (x, r')"
  shows "tape r' = tape r" and "xmin \<le> xmax" and "rng_ok r \<Longrightarrow> xmin \<le> x \<and> x \<le> xmax"
proof -
  from rejectionLoop_result [OF assms [unfolded rejectionSampling_def]]
  obtain k where t: "tape r' = tape r" and le: "xmin \<le> xmax"
    and x: "x = xmin + (xmax - xmin) * tape r k" by blast
  show "tape r' = tape r" by (rule t)
  show "xmin \<le> xmax" by (rule le)
  assume "rng_ok r"
  then have u: "0 \<le> tape r k" "tape r k < 1" by (simp_all add: rng_ok_def)
  have "0 \<le> (xmax - xmin) * tape r k" using le u(1) by simp
  moreover have "(xmax - xmin) * tape r k \<le> (xmax - xmin) * 1"
    using le u(2) by (intro mult_left_mono) auto
  ultimately show "xmin \<le> x \<and> x \<le> xmax" unfolding x by simp
qed

lemma choice_tape: "choice a p r = Inr (x, r') \<Longrightarrow> tape r' = tape r \<and> x \<in> set a"
  by (auto simp: choice_def random_def Let_def split: option.splits if_splits)

lemma chooseFlavor_tape:
  "chooseFlavor self r = Inr (f, r') \<Longrightarrow> tape r' = tape r"
  by (auto simp: chooseFlavor_def Let_def dest: choice_tape split: list.splits)

lemma selectNu_Inr:
  assumes "selectNu self flavor nuThreshold r = Inr ((f, E), r')"
  shows "\<exists>r1 rates.
           (case flavor of None \<Rightarrow> chooseFlavor self r | Some f' \<Rightarrow> Inr (f', r)) = Inr (f, r1)
         \<and> f \<in> set (flavors self) \<and> eventRates self f = Some rates \<and> rates \<noteq> []
         \<and> nuEnergyBins self \<noteq> []
         \<and> rejectionSampling (\<lambda>x. getEventRate self f x)
              (max (Min (set (nuEnergyBins self))) nuThreshold) (Max (set (nuEnergyBins self)))
              (Max (set rates)) r1 = Inr (E, r')"
proof -
  let ?pick = "case flavor of None \<Rightarrow> chooseFlavor self r | Some f' \<Rightarrow> Inr (f', r)"
  have p: "\<exists>f1 r1. ?pick = Inr (f1, r1)"
  proof (cases ?pick)
    case (Inl e)
    then have "selectNu self flavor nuThreshold r = Inl e"
      unfolding selectNu_def by (simp only: sum.case)
    then show ?thesis using assms by simp
  next
    case (Inr p)
    then show ?thesis by (cases p) auto
  qed
  then obtain f1 r1 where c: "?pick = Inr (f1, r1)" by blast
  have u1: "selectNu self flavor nuThreshold r =
      (if f1 \<notin> set (flavors self) then Inl (AssertionError_flavor f1)
       else (case eventRates self f1 of
               None \<Rightarrow> Inl (KeyError f1)
             | Some rates \<Rightarrow>
           (case np_max rates of
              Inl e \<Rightarrow> Inl e
            | Inr maxEventRate \<Rightarrow>
           (case np_min (nuEnergyBins self) of
              Inl e \<Rightarrow> Inl e
            | Inr minBin \<Rightarrow>
           (let minEnergy = max minBin nuThreshold in
           (case np_max (nuEnergyBins self) of
              Inl e \<Rightarrow> Inl e
            | Inr maxBin \<Rightarrow>
           (case rejectionSampling (\<lambda>x. getEventRate self f1 x)
                                   minEnergy maxBin maxEventRate r1 of
              Inl e \<Rightarrow> Inl e
            | Inr (nuEnergy, r2) \<Rightarrow> Inr ((f1, nuEnergy), r2))))))))"
    unfolding selectNu_def c by (simp only: sum.case prod.case)
  have m1: "f1 \<in> set (flavors self)"
  proof (rule ccontr)
    assume "f1 \<notin> set (flavors self)"
    then have "selectNu self flavor nuThreshold r = Inl (AssertionError_flavor f1)"
      unfolding u1 by (simp only: simp_thms if_True)
    then show False using assms by simp
  qed
  obtain rates where er: "eventRates self f1 = Some rates"
  proof (cases "eventRates self f1")
    case None
    then have "selectNu self flavor nuThreshold r = Inl (KeyError f1)"
      unfolding u1 using m1 by (simp only: not_True_eq_False if_False option.case simp_thms)
    then show ?thesis using assms by simp
  qed auto
  have rne: "rates \<noteq> []"
  proof
    assume "rates = []"
    then have "np_max rates = Inl ValueError" by (simp add: np_max_def)
    then have "selectNu self flavor nuThreshold r = Inl ValueError"
      unfolding u1 using m1 by (simp only: er simp_thms if_False option.case sum.case)
    then show False using assms by simp
  qed
  then have mx: "np_max rates = Inr (Max (set rates))" by (simp add: np_max_def)
  have ne: "nuEnergyBins self \<noteq> []"
  proof
    assume "nuEnergyBins self = []"
    then have "np_min (nuEnergyBins self) = Inl ValueError" by (simp add: np_min_def)
    then have "selectNu self flavor nuThreshold r = Inl ValueError"
      unfolding u1 using m1 by (simp only: er mx simp_thms if_False option.case sum.case)
    then show False using assms by simp
  qed
  then have mn: "np_min (nuEnergyBins self) = Inr (Min (set (nuEnergyBins self)))"
    and mb: "np_max (nuEnergyBins self) = Inr (Max (set (nuEnergyBins self)))"
    by (simp_all add: np_min_def np_max_def)
  let ?rs = "rejectionSampling (\<lambda>x. getEventRate self f1 x)
             (max (Min (set (nuEnergyBins self))) nuThreshold) (Max (set (nuEnergyBins self)))
             (Max (set rates)) r1"
  have u2: "selectNu self flavor nuThreshold r =
      (case ?rs of Inl e \<Rightarrow> Inl e | Inr (nuEnergy, r2) \<Rightarrow> Inr ((f1, nuEnergy), r2))"
    unfolding u1 using m1
    by (simp only: er mx mn mb Let_def simp_thms if_False option.case sum.case)
  have "?rs = Inr (E, r') \<and> f1 = f"
  proof (cases ?rs)
    case (Inl e)
    then show ?thesis using assms unfolding u2 by simp
  next
    case (Inr p)
    then show ?thesis using assms unfolding u2 by (cases p) simp
  qed
  then show ?thesis using c m1 er rne ne by blast
qed

lemma selectNu_result:
  assumes "selectNu self flavor nuThreshold r = Inr ((f, E), r')"
  shows "f \<in> set (flavors self)" and "flavor = Some g \<Longrightarrow> f = g" and "tape r' = tape r"
    and "nuEnergyBins self \<noteq> []"
    and "rng_ok r \<Longrightarrow> max (Min (set (nuEnergyBins self))) nuThreshold \<le> E
                      \<and> E \<le> Max (set (nuEnergyBins self))"
proof -
  from selectNu_Inr [OF assms] obtain r1 rates where
    h: "(case flavor of None \<Rightarrow> chooseFlavor self r | Some f' \<Rightarrow> Inr (f', r)) = Inr (f, r1)
         \<and> f \<in> set (flavors self) \<and> eventRates self f = Some rates \<and> rates \<noteq> []
         \<and> nuEnergyBins self \<noteq> []
         \<and> rejectionSampling (\<lambda>x. getEventRate self f x)
              (max (Min (set (nuEnergyBins self))) nuThreshold) (Max (set (nuEnergyBins self)))
              (Max (set rates)) r1 = Inr (E, r')"
    by (elim exE)
  have c: "(case flavor of None \<Rightarrow> chooseFlavor self r | Some f' \<Rightarrow> Inr (f', r)) = Inr (f, r1)"
    and m: "f \<in> set (flavors self)" and ne: "nuEnergyBins self \<noteq> []"
    and s: "rejectionSampling (\<lambda>x. getEventRate self f x)
              (max (Min (set (nuEnergyBins self))) nuThreshold) (Max (set (nuEnergyBins self)))
              (Max (set rates)) r1 = Inr (E, r')"
    using h by simp_all
  have t1: "tape r1 = tape r"
  proof (cases flavor)
    case None
    then show ?thesis using c chooseFlavor_tape [of self r f r1] by simp
  next
    case (Some a)
    then show ?thesis using c by simp
  qed
  show "f \<in> set (flavors self)" by (rule m)
  show "nuEnergyBins self \<noteq> []" by (rule ne)
  show "flavor = Some g \<Longrightarrow> f = g" using c by simp
  show "tape r' = tape r" using rejectionSampling_result(1) [OF s] t1 by simp
  assume "rng_ok r"
  then have "rng_ok r1" using rng_ok_tape [OF t1] by simp
  then show "max (Min (set (nuEnergyBins self))) nuThreshold \<le> E
               \<and> E \<le> Max (set (nuEnergyBins self))"
    by (rule rejectionSampling_result(3) [OF s])
qed

lemma sampleRecoil_result:
  assumes "sampleRecoil f E eThreshold r = Inr (T, r')"
  shows "E \<noteq> 0" and "me + 2 * E \<noteq> 0" and "tape r' = tape r"
    and "rng_ok r \<Longrightarrow> eThreshold \<le> T \<and> T \<le> 2 * E\<^sup>2 / (me + 2 * E)"
proof -
  obtain ga gv where g: "couplings f = (ga, gv)" by (cases "couplings f")
  from assms g show e: "E \<noteq> 0"
    by (auto simp: sampleRecoil_def diff_xscn_def split: if_splits)
  from assms g e show m: "me + 2 * E \<noteq> 0"
    by (auto simp: sampleRecoil_def diff_xscn_def maxKE_def py_div_def split: if_splits)
  from assms g e m have s: "\<exists>ymax. rejectionSampling (diff_xscn ga gv E) eThreshold
      (2 * E\<^sup>2 / (me + 2 * E)) ymax r = Inr (T, r')"
    by (auto simp: sampleRecoil_def diff_xscn_def maxKE_def py_div_def)
  then obtain ymax where s': "rejectionSampling (diff_xscn ga gv E) eThreshold
      (2 * E\<^sup>2 / (me + 2 * E)) ymax r = Inr (T, r')" by blast
  show "tape r' = tape r" by (rule rejectionSampling_result(1) [OF s'])
  show "rng_ok r \<Longrightarrow> eThreshold \<le> T \<and> T \<le> 2 * E\<^sup>2 / (me + 2 * E)"
    by (rule rejectionSampling_result(3) [OF s'])
qed

lemma composeEvent_result:
  assumes "composeEvent f E sn rot T r = Inr (ev, r')"
  shows "\<exists>c s rv phi. eCos E T = Inr c \<and> - 1 \<le> c \<and> c \<le> 1 \<and> sn = Some s \<and> rot = Some rv
           \<and> ev = \<lparr> ev_flavor = f, ev_nuEnergy = E, ev_sn_direction = s, ev_eKE = T,
                    ev_eDir = rot_apply rv (sqrt (1 - c\<^sup>2) * cos phi, sqrt (1 - c\<^sup>2) * sin phi, c) \<rparr>
           \<and> isclose (dot (ev_eDir ev) s) c"
proof -
  obtain c where c: "eCos E T = Inr c"
    using assms by (cases "eCos E T") (simp_all add: composeEvent_def)
  have b: "- 1 \<le> c \<and> c \<le> 1"
    using assms c by (simp add: composeEvent_def split: if_splits)
  obtain phi r1 where u: "uniform 0 (2 * pi) r = Inr (phi, r1)"
    using assms c b by (cases "uniform 0 (2 * pi) r") (auto simp: composeEvent_def)
  obtain rv where rot: "rot = Some rv"
    using assms c b u by (cases rot) (simp_all add: composeEvent_def)
  obtain s where sn: "sn = Some s"
    using assms c b u rot by (cases sn) (simp_all add: composeEvent_def)
  let ?d = "rot_apply rv (sqrt (1 - c\<^sup>2) * cos phi, sqrt (1 - c\<^sup>2) * sin phi, c)"
  have "isclose (dot ?d s) c \<and> ev = \<lparr> ev_flavor = f, ev_nuEnergy = E, ev_sn_direction = s,
          ev_eKE = T, ev_eDir = ?d \<rparr>"
    using assms c b u rot sn by (simp add: composeEvent_def Let_def split: if_splits)
  then show ?thesis using c b rot sn by auto
qed

lemma composeEvent_no_rot: "composeEvent f E sn None T r \<noteq> Inr x"
  unfolding composeEvent_def Let_def
  by (simp split: sum.splits prod.splits)

lemma genEvent_result:
  assumes "genEvent self sn_direction flavor eThreshold nuThreshold r = Inr (ev, r')"
  shows "\<exists>f E r1 sn rot r2 T r3.
           selectNu self flavor nuThreshold r = Inr ((f, E), r1)
         \<and> snRotation sn_direction r1 = Inr ((sn, rot), r2)
         \<and> sampleRecoil f E eThreshold r2 = Inr (T, r3)
         \<and> composeEvent f E sn rot T r3 = Inr (ev, r')"
proof -
  obtain f E r1 where a: "selectNu self flavor nuThreshold r = Inr ((f, E), r1)"
    using assms by (cases "selectNu self flavor nuThreshold r") (auto simp: genEvent_def)
  obtain sn rot r2 where b: "snRotation sn_direction r1 = Inr ((sn, rot), r2)"
    using assms a by (cases "snRotation sn_direction r1") (auto simp: genEvent_def)
  obtain T r3 where c: "sampleRecoil f E eThreshold r2 = Inr (T, r3)"
    using assms a b by (cases "sampleRecoil f E eThreshold r2") (auto simp: genEvent_def)
  have "composeEvent f E sn rot T r3 = Inr (ev, r')"
    using assms a b c by (simp add: genEvent_def)
  then show ?thesis using a b c by blast
qed

subsection \<open>The rotation onto the supernova direction\<close>

lemma uniform3_tape: "uniform3 low high r = Inr (v, r') \<Longrightarrow> tape r' = tape r"
proof -
  assume a: "uniform3 low high r = Inr (v, r')"
  obtain a1 r1 where u1: "uniform low high r = Inr (a1, r1)"
    using a by (cases "uniform low high r") (auto simp: uniform3_def)
  obtain a2 r2 where u2: "uniform low high r1 = Inr (a2, r2)"
    using a u1 by (cases "uniform low high r1") (auto simp: uniform3_def)
  obtain a3 r3 where u3: "uniform low high r2 = Inr (a3, r3)"
    using a u1 u2 by (cases "uniform low high r2") (auto simp: uniform3_def)
  have "r' = r3" using a u1 u2 u3 by (simp add: uniform3_def)
  then show ?thesis
    using uniform_result(3) [OF u1] uniform_result(3) [OF u2] uniform_result(3) [OF u3] by simp
qed

lemma snRotation_Inr:
  assumes "snRotation sn_direction r = Inr ((sn, rot), r')"
  shows "\<exists>v. (case sn_direction of None \<Rightarrow> uniform3 (- 1) 1 r | Some v \<Rightarrow> Inr (v, r)) = Inr (v, r')
           \<and> sn = unit_vector v
           \<and> rot = (case (case unit_vector v of
                             None \<Rightarrow> None
                           | Some s \<Rightarrow> if - 1 \<le> dot s zaxis \<and> dot s zaxis \<le> 1
                                       then Some (arccos (dot s zaxis)) else None) of
                      None \<Rightarrow> None
                    | Some a \<Rightarrow> (case (case unit_vector v of None \<Rightarrow> None
                                        | Some s \<Rightarrow> unit_vector (cross zaxis s)) of
                                  None \<Rightarrow> None | Some k \<Rightarrow> Some (smul a k)))"
proof -
  let ?pick = "case sn_direction of None \<Rightarrow> uniform3 (- 1) 1 r | Some v \<Rightarrow> Inr (v, r)"
  obtain v r1 where p: "?pick = Inr (v, r1)"
    using assms by (cases ?pick) (auto simp: snRotation_def)
  show ?thesis
    using assms unfolding snRotation_def p Let_def by (simp only: sum.case prod.case) auto
qed

lemma snRotation_tape:
  assumes "snRotation sn_direction r = Inr ((sn, rot), r')"
  shows "tape r' = tape r"
proof -
  from snRotation_Inr [OF assms] obtain v where
    p: "(case sn_direction of None \<Rightarrow> uniform3 (- 1) 1 r | Some v \<Rightarrow> Inr (v, r)) = Inr (v, r')"
    by (elim exE conjE)
  show ?thesis
  proof (cases sn_direction)
    case None
    then show ?thesis using p uniform3_tape [of "- 1" 1 r v r'] by simp
  next
    case (Some a)
    then show ?thesis using p by simp
  qed
qed

lemma snRotation_supplied:
  assumes "snRotation (Some v) r = Inr ((sn, rot), r')"
  shows "sn = unit_vector v" and "r' = r"
proof -
  from snRotation_Inr [OF assms] obtain v' where
    p: "(case Some v of None \<Rightarrow> uniform3 (- 1) 1 r | Some v \<Rightarrow> Inr (v, r)) = Inr (v', r')"
    and n: "sn = unit_vector v'"
    by (elim exE conjE)
  show "sn = unit_vector v" using p n by simp
  show "r' = r" using p by simp
qed

lemma snRotation_rescale:
  assumes "unit_vector v = Some s"
  shows "snRotation (Some v) r = snRotation (Some s) r"
  using assms unit_vector_idem [OF assms] by (simp add: snRotation_def)

lemma cross_zaxis: "cross zaxis (a, b, c) = (- b, a, 0)"
  by (simp add: zaxis_def)

lemma dot_zaxis: "dot (a, b, c) zaxis = c"
  by (simp add: zaxis_def)

text \<open>On or against the z axis the rotation axis has norm zero and the rotation is NaN.\<close>

lemma snRotation_on_zaxis:
  assumes "snRotation (Some (0, 0, c)) r = Inr ((sn, rot), r')"
  shows "rot = None"
proof -
  from snRotation_Inr [OF assms] obtain v where
    p: "(case Some (0, 0, c) of None \<Rightarrow> uniform3 (- 1) 1 r | Some v \<Rightarrow> Inr (v, r)) = Inr (v, r')"
    and rot: "rot = (case (case unit_vector v of
                             None \<Rightarrow> None
                           | Some s \<Rightarrow> if - 1 \<le> dot s zaxis \<and> dot s zaxis \<le> 1
                                       then Some (arccos (dot s zaxis)) else None) of
                      None \<Rightarrow> None
                    | Some a \<Rightarrow> (case (case unit_vector v of None \<Rightarrow> None
                                        | Some s \<Rightarrow> unit_vector (cross zaxis s)) of
                                  None \<Rightarrow> None | Some k \<Rightarrow> Some (smul a k)))"
    by (elim exE conjE)
  have v: "v = (0, 0, c)" using p by simp
  show ?thesis
  proof (cases "c = 0")
    case True
    then have "unit_vector v = None" by (simp add: v unit_vector_def)
    then show ?thesis using rot by simp
  next
    case False
    then have n: "unit_vector v = Some (0, 0, c / \<bar>c\<bar>)"
      by (simp add: v unit_vector_def)
    have "unit_vector (cross zaxis (0, 0, c / \<bar>c\<bar>)) = None"
      by (simp add: cross_zaxis unit_vector_def)
    then show ?thesis using rot n by (simp split: option.splits)
  qed
qed

lemma snRotation_result:
  assumes "snRotation sn_direction r = Inr ((Some s, Some rv), r')"
  shows "linalg_norm s = 1"
    and "dot (rot_apply rv e) s = snd (snd e)"
    and "linalg_norm (rot_apply rv e) = linalg_norm e"
proof -
  from snRotation_Inr [OF assms] obtain v where
    n: "Some s = unit_vector v"
    and rot: "Some rv = (case (case unit_vector v of
                             None \<Rightarrow> None
                           | Some s \<Rightarrow> if - 1 \<le> dot s zaxis \<and> dot s zaxis \<le> 1
                                       then Some (arccos (dot s zaxis)) else None) of
                      None \<Rightarrow> None
                    | Some a \<Rightarrow> (case (case unit_vector v of None \<Rightarrow> None
                                        | Some s \<Rightarrow> unit_vector (cross zaxis s)) of
                                  None \<Rightarrow> None | Some k \<Rightarrow> Some (smul a k)))"
    by (elim exE conjE)
  obtain a b c where s: "s = (a, b, c)" by (cases s) auto
  obtain x y z where e: "e = (x, y, z)" by (cases e) auto
  show u1: "linalg_norm s = 1" using n unit_vector_unit [of v s] by simp
  then have u: "a\<^sup>2 + b\<^sup>2 + c\<^sup>2 = 1" unfolding s by (rule unit_components)
  have nz: "linalg_norm (- b, a, 0) \<noteq> 0"
    and rv: "rv = smul (arccos c) (smul (1 / linalg_norm (- b, a, 0)) (- b, a, 0))"
    using rot unfolding n [symmetric] s
    by (auto simp: cross_zaxis dot_zaxis unit_vector_def split: if_splits option.splits)
  have ln: "linalg_norm (- b, a, 0) = sqrt (a\<^sup>2 + b\<^sup>2)"
    by (simp add: power2_eq_square add.commute)
  have off: "a \<noteq> 0 \<or> b \<noteq> 0" using nz by auto
  note comp = rot_apply_components(1) [OF u off, where x = x and y = y and z = z]
    rot_apply_components(2) [OF u off, where x = x and y = y]
  define w where "w = (1 - c) * (a * y - b * x) / (a\<^sup>2 + b\<^sup>2)"
  have rvc: "rot_apply rv (x, y, z) =
     (c * x + a * z + w * (- b), c * y + b * z + w * a, c * z - b * y - a * x)"
    unfolding rv ln w_def by (rule comp(1))
  have w1: "w * (1 + c) = a * y - b * x"
    unfolding w_def by (rule comp(2))
  have "(c * x + a * z + w * (- b)) * a + (c * y + b * z + w * a) * b
           + (c * z - b * y - a * x) * c = z"
    by (rule rot_dot_aux [OF u])
  then show "dot (rot_apply rv e) s = snd (snd e)"
    unfolding e s rvc by (simp only: dot.simps snd_conv)
  have "(c * x + a * z + w * (- b)) * (c * x + a * z + w * (- b))
       + (c * y + b * z + w * a) * (c * y + b * z + w * a)
       + (c * z - b * y - a * x) * (c * z - b * y - a * x) = x * x + y * y + z * z"
    by (rule rot_norm_aux [OF u w1])
  then have "linalg_norm (rot_apply rv (x, y, z)) = linalg_norm (x, y, z)"
    unfolding rvc by (simp only: linalg_norm.simps)
  then show "linalg_norm (rot_apply rv e) = linalg_norm e"
    unfolding e .
qed

lemma eDir0_unit:
  assumes "- 1 \<le> c" "c \<le> 1"
  shows "linalg_norm (sqrt (1 - c\<^sup>2) * cos phi, sqrt (1 - c\<^sup>2) * sin phi, c) = 1"
proof -
  define q where "q = sqrt (1 - c\<^sup>2)"
  have "c\<^sup>2 \<le> 1" using assms by (simp add: abs_square_le_1 abs_le_iff)
  then have q: "q * q = 1 - c\<^sup>2" by (simp add: q_def)
  have "q * cos phi * (q * cos phi) + q * sin phi * (q * sin phi) + c * c = 1"
    using q sin_cos_squared_add [of phi] by algebra
  then have "linalg_norm (q * cos phi, q * sin phi, c) = 1" by simp
  then show ?thesis by (simp only: q_def)
qed

subsection \<open>A run on the example generator\<close>

lemma sampling_accept_first:
  assumes "xmin \<le> xmax" "0 \<le> ymax" "tape r (pos r) = 0" "tape r (Suc (pos r)) = 0"
    "0 < f xmin"
  shows "rejectionSampling (\<lambda>x. Inr (f x)) xmin xmax ymax r = Inr (xmin, advance 2 r)"
proof -
  have a: "\<not> rejected f xmin xmax ymax r 0"
    using assms(3,4,5) by (simp add: rejected_def x_at_def y_at_def)
  have "rejectionSampling (\<lambda>x. Inr (f x)) xmin xmax ymax r
          = Inr (x_at xmin xmax r 0, advance (2 * Suc 0) r)"
    by (rule sampling_first_accepted [OF assms(1,2) _ a]) simp_all
  then show ?thesis using assms(3) by (simp add: x_at_def)
qed

lemma demo_gen_rate: "getEventRate demo_gen ''nue'' x = Inr 1"
  by (simp add: getEventRate_def demo_gen_def np_interp_def)

lemma zero_rng_tape: "tape (advance n zero_rng) k = 0"
  by (simp add: zero_rng_def advance_def)

lemma selectNu_demo:
  assumes "nuThreshold \<le> 10" "tape r (pos r) = 0" "tape r (Suc (pos r)) = 0"
  shows "selectNu demo_gen (Some ''nue'') nuThreshold r
           = Inr ((''nue'', max 1 nuThreshold), advance 2 r)"
proof -
  have f: "(\<lambda>x. getEventRate demo_gen ''nue'' x) = (\<lambda>x. Inr ((\<lambda>x. 1) x))"
    by (simp add: demo_gen_rate)
  have s: "rejectionSampling (\<lambda>x. getEventRate demo_gen ''nue'' x) (max 1 nuThreshold) 10 1 r
             = Inr (max 1 nuThreshold, advance 2 r)"
    unfolding f using assms by (intro sampling_accept_first) auto
  have g: "flavors demo_gen = [''nue'', ''nuebar'', ''numu'', ''numubar'', ''nutau'', ''nutaubar'']"
    "nuEnergyBins demo_gen = [1, 10]" "eventRates demo_gen ''nue'' = Some [1, 1]"
    by (simp_all add: demo_gen_def)
  show ?thesis
    by (simp add: selectNu_def g np_max_def np_min_def s)
qed

lemma rot_apply_quarter: "rot_apply (0, pi / 2, 0) (x, y, z) = (z, y, - x)"
proof -
  have "sqrt (pi / 2 * (pi / 2)) = \<bar>pi / 2\<bar>" by (rule real_sqrt_abs2)
  moreover have "0 * 0 + pi / 2 * (pi / 2) + 0 * 0 = pi / 2 * (pi / 2)" by simp
  ultimately have "sqrt (0 * 0 + pi / 2 * (pi / 2) + 0 * 0) = pi / 2" by simp
  then have n: "linalg_norm (0, pi / 2, 0) = pi / 2" by (simp only: linalg_norm.simps)
  have k: "smul (1 / (pi / 2)) (0, pi / 2, 0) = (0, 1, 0)" by simp
  show ?thesis
    unfolding rot_apply_def Let_def n k by simp
qed

lemma snRotation_demo:
  "snRotation (Some (1, 0, 0)) r = Inr ((Some (1, 0, 0), Some (0, pi / 2, 0)), r)"
  by (simp add: snRotation_def unit_vector_def zaxis_def)

lemma sampleRecoil_zero_tape:
  assumes "E \<noteq> 0" "0.510998910 + 2 * E \<noteq> 0" "eThreshold \<le> maxKE_spec E"
    "0 < diffXscn_spec (couplings f) E eThreshold" "0 \<le> diffXscn_spec (couplings f) E 0"
    "tape r (pos r) = 0" "tape r (Suc (pos r)) = 0"
  shows "sampleRecoil f E eThreshold r = Inr (eThreshold, advance 2 r)"
  unfolding sampleRecoil_spec [OF assms(1,2)]
  using assms(3-) by (intro sampling_accept_first) auto

lemma couplings_nue: "couplings ''nue'' = (0.5, 0.96244)"
  by (simp add: couplings_def WMA_def)

lemma sampleRecoil_demo:
  assumes "tape r (pos r) = 0" "tape r (Suc (pos r)) = 0"
  shows "sampleRecoil ''nue'' 2 1 r = Inr (1, advance 2 r)"
    and "sampleRecoil ''nue'' 2 (- 3) r = Inr (- 3, advance 2 r)"
proof -
  have m: "(1::real) \<le> maxKE_spec 2" "(- 3::real) \<le> maxKE_spec 2"
    by (simp_all add: maxKE_spec_def)
  have d: "0 < diffXscn_spec (couplings ''nue'') 2 1" "0 < diffXscn_spec (couplings ''nue'') 2 (- 3)"
    "0 \<le> diffXscn_spec (couplings ''nue'') 2 0"
    by (simp_all add: couplings_nue diffXscn_spec_def power2_eq_square)
  show "sampleRecoil ''nue'' 2 1 r = Inr (1, advance 2 r)"
    by (rule sampleRecoil_zero_tape [OF _ _ m(1) d(1) d(3) assms]) simp_all
  show "sampleRecoil ''nue'' 2 (- 3) r = Inr (- 3, advance 2 r)"
    by (rule sampleRecoil_zero_tape [OF _ _ m(2) d(2) d(3) assms]) simp_all
qed

lemma eCos_demo: "eCos 2 1 = Inr demo_eCos"
  by (simp add: eCos_def py_div_def demo_eCos_def me_def)

lemma demo_eCos_range: "0 \<le> demo_eCos" "demo_eCos \<le> 1"
proof -
  show "0 \<le> demo_eCos" by (simp add: demo_eCos_def me_def)
  have "sqrt (1 / (1 + 2 * me)) \<le> 2 / (2 + me)"
    by (rule real_le_lsqrt) (simp_all add: me_def power2_eq_square)
  then have "(2 + me) / 2 * sqrt (1 / (1 + 2 * me)) \<le> (2 + me) / 2 * (2 / (2 + me))"
    by (intro mult_left_mono) (simp_all add: me_def)
  also have "\<dots> = 1" by (simp add: me_def)
  finally show "demo_eCos \<le> 1" by (simp add: demo_eCos_def)
qed

lemma isclose_refl: "isclose a a"
  by (simp add: isclose_def)

lemma composeEvent_demo:
  assumes "tape r (pos r) = 0"
  shows "composeEvent ''nue'' 2 (Some (1, 0, 0)) (Some (0, pi / 2, 0)) 1 r
           = Inr (demo_event, advance 1 r)"
proof -
  have u: "uniform 0 (2 * pi) r = Inr (0, advance 1 r)"
    using assms by (simp add: uniform_ok)
  have b: "\<not> \<not> (demo_eCos \<ge> - 1 \<and> demo_eCos \<le> 1)"
    using demo_eCos_range by simp
  show ?thesis
    unfolding composeEvent_def eCos_demo u Let_def
    using b by (simp add: rot_apply_quarter isclose_refl demo_event_def)
qed

lemma composeEvent_demo_no_rot:
  assumes "tape r (pos r) = 0"
  shows "composeEvent ''nue'' 2 sn None 1 r = Inl AssertionError_dot"
proof -
  have u: "uniform 0 (2 * pi) r = Inr (0, advance 1 r)"
    using assms by (simp add: uniform_ok)
  have b: "\<not> \<not> (demo_eCos \<ge> - 1 \<and> demo_eCos \<le> 1)"
    using demo_eCos_range by simp
  show ?thesis
    unfolding composeEvent_def eCos_demo u Let_def
    using b by simp
qed

lemma snRotation_demo_zaxis:
  assumes "0 < c"
  shows "snRotation (Some (0, 0, c)) r = Inr ((Some (0, 0, 1), None), r)"
  using assms by (simp add: snRotation_def unit_vector_def zaxis_def)

lemma genEvent_demo_zaxis:
  assumes "0 < c"
  shows "genEvent demo_gen (Some (0, 0, c)) (Some ''nue'') 1 2 zero_rng = Inl AssertionError_dot"
proof -
  have z: "tape (advance n zero_rng) (pos (advance n zero_rng)) = 0"
    "tape (advance n zero_rng) (Suc (pos (advance n zero_rng))) = 0" for n
    by (simp_all add: zero_rng_def advance_def)
  have z0: "tape zero_rng (pos zero_rng) = 0" "tape zero_rng (Suc (pos zero_rng)) = 0"
    by (simp_all add: zero_rng_def)
  have a: "selectNu demo_gen (Some ''nue'') 2 zero_rng = Inr ((''nue'', 2), advance 2 zero_rng)"
    using selectNu_demo [of 2 zero_rng] z0 by simp
  show ?thesis
    unfolding genEvent_def a
    by (simp add: snRotation_demo_zaxis [OF assms] sampleRecoil_demo(1) [OF z]
          composeEvent_demo_no_rot [OF z(1)] advance_advance)
qed

lemma init_demo:
  "init demo_readFile demo_default_rng entropy dataDir flux detectorConfig 42
     = Inr (demo_gen, zero_rng)"
  by (simp add: init_def Let_def demo_gen_def zero_rng_def demo_readFile_def
        demo_default_rng_def fun_eq_iff)

lemma genEvent_demo:
  "genEvent demo_gen (Some (1, 0, 0)) (Some ''nue'') 1 2 zero_rng
     = Inr (demo_event, advance 5 zero_rng)"
proof -
  have z: "tape (advance n zero_rng) (pos (advance n zero_rng)) = 0"
    "tape (advance n zero_rng) (Suc (pos (advance n zero_rng))) = 0" for n
    by (simp_all add: zero_rng_def advance_def)
  have z0: "tape zero_rng (pos zero_rng) = 0" "tape zero_rng (Suc (pos zero_rng)) = 0"
    by (simp_all add: zero_rng_def)
  have a: "selectNu demo_gen (Some ''nue'') 2 zero_rng = Inr ((''nue'', 2), advance 2 zero_rng)"
    using selectNu_demo [of 2 zero_rng] z0 by simp
  show ?thesis
    unfolding genEvent_def a
    by (simp add: snRotation_demo sampleRecoil_demo(1) [OF z] composeEvent_demo [OF z(1)]
          advance_advance)
qed

subsection \<open>A supernova direction along the z axis\<close>

lemma genEvent_along_z:
  "\<exists>e. genEvent self (Some (0, 0, c)) flavor eThreshold nuThreshold r = Inl e"
proof (cases "genEvent self (Some (0, 0, c)) flavor eThreshold nuThreshold r")
  case (Inl e)
  then show ?thesis by blast
next
  case (Inr x)
  obtain ev r' where x: "x = (ev, r')" by (cases x)
  from genEvent_result [OF Inr [unfolded x]] obtain f E r1 sn rot r2 T r3 where
    s: "snRotation (Some (0, 0, c)) r1 = Inr ((sn, rot), r2)"
    and c: "composeEvent f E sn rot T r3 = Inr (ev, r')"
    by (elim exE conjE)
  have "rot = None" by (rule snRotation_on_zaxis [OF s])
  with c composeEvent_no_rot show ?thesis by blast
qed

text \<open>
  C1. With \<^verbatim>\<open>sn_direction = (0, 0, 1)\<close> the cross product of line 121 is the zero vector,
  line 122 divides it by its norm 0, and the rotation built from the resulting NaN axis makes
  the assertion of line 159 fail: no generator, flavor, threshold or generator state makes
  \<^verbatim>\<open>genEvent\<close> return an event for this direction.
\<close>

theorem genEvent_zaxis_no_event:
  "\<exists>e. genEvent self (Some (0, 0, 1)) flavor eThreshold nuThreshold r = Inl e"
  by (rule genEvent_along_z)

theorem genEvent_zaxis_no_event_witness:
  "genEvent demo_gen (Some (0, 0, 1)) (Some ''nue'') 1 2 zero_rng = Inl AssertionError_dot"
  using genEvent_zaxis_no_event [of demo_gen "Some ''nue''" 1 2 zero_rng]
  by (simp add: genEvent_demo_zaxis)

subsection \<open>The geometry of a returned event\<close>

text \<open>
  C3. In every event \<^verbatim>\<open>genEvent\<close> returns, the dot product of \<^verbatim>\<open>eDir\<close> and
  \<^verbatim>\<open>sn_direction\<close> is the recoil cosine \<^verbatim>\<open>eCos\<close> computed from the event's
  \<^verbatim>\<open>nuEnergy\<close> and \<^verbatim>\<open>eKE\<close> (so the test of line 159 holds), and both vectors have
  norm 1. Over the reals the equalities are exact.
\<close>

theorem genEvent_geometry:
  assumes "genEvent self sn_direction flavor eThreshold nuThreshold r = Inr (ev, r')"
  shows "\<exists>c. eCos (ev_nuEnergy ev) (ev_eKE ev) = Inr c
           \<and> dot (ev_eDir ev) (ev_sn_direction ev) = c
           \<and> isclose (dot (ev_eDir ev) (ev_sn_direction ev)) c
           \<and> linalg_norm (ev_sn_direction ev) = 1
           \<and> linalg_norm (ev_eDir ev) = 1"
proof -
  from genEvent_result [OF assms] obtain f E r1 sn rot r2 T r3 where
    s: "snRotation sn_direction r1 = Inr ((sn, rot), r2)"
    and c: "composeEvent f E sn rot T r3 = Inr (ev, r')"
    by (elim exE conjE)
  from composeEvent_result [OF c] obtain c s' rv phi where
    ec: "eCos E T = Inr c" and lo: "- 1 \<le> c" and hi: "c \<le> 1"
    and sn: "sn = Some s'" and rot: "rot = Some rv"
    and ev: "ev = \<lparr> ev_flavor = f, ev_nuEnergy = E, ev_sn_direction = s', ev_eKE = T,
                  ev_eDir = rot_apply rv (sqrt (1 - c\<^sup>2) * cos phi, sqrt (1 - c\<^sup>2) * sin phi, c) \<rparr>"
    and cl: "isclose (dot (ev_eDir ev) s') c"
    by (elim exE conjE)
  let ?e = "(sqrt (1 - c\<^sup>2) * cos phi, sqrt (1 - c\<^sup>2) * sin phi, c)"
  note s' = s [unfolded sn rot]
  note g = snRotation_result(1) [OF s'] snRotation_result(2) [OF s', where e = ?e]
    snRotation_result(3) [OF s', where e = ?e]
  have d: "dot (rot_apply rv ?e) s' = c" using g(2) by simp
  have n: "linalg_norm (rot_apply rv ?e) = 1" using g(3) eDir0_unit [OF lo hi, of phi] by simp
  have "eCos (ev_nuEnergy ev) (ev_eKE ev) = Inr c" using ec by (simp add: ev)
  moreover have "dot (ev_eDir ev) (ev_sn_direction ev) = c" using d by (simp add: ev)
  moreover have "isclose (dot (ev_eDir ev) (ev_sn_direction ev)) c" using cl by (simp add: ev)
  moreover have "linalg_norm (ev_sn_direction ev) = 1" using g(1) by (simp add: ev)
  moreover have "linalg_norm (ev_eDir ev) = 1" using n by (simp add: ev)
  ultimately show ?thesis by blast
qed

theorem genEvent_geometry_witness:
  "genEvent demo_gen (Some (1, 0, 0)) (Some ''nue'') 1 2 zero_rng
     = Inr (demo_event, advance 5 zero_rng)
   \<and> eCos 2 1 = Inr demo_eCos
   \<and> dot (demo_eCos, 0, - sqrt (1 - demo_eCos\<^sup>2)) (1, 0, 0) = demo_eCos
   \<and> linalg_norm (demo_eCos, 0, - sqrt (1 - demo_eCos\<^sup>2)) = 1"
  using genEvent_geometry [OF genEvent_demo]
  by (simp add: genEvent_demo demo_event_def eCos_demo)

subsection \<open>The ranges of the sampled energies\<close>

text \<open>
  C4. In every event \<^verbatim>\<open>genEvent\<close> returns, \<^verbatim>\<open>eKE\<close> lies between \<^verbatim>\<open>eThreshold\<close> and
  \<^verbatim>\<open>maxKE = 2 * nuEnergy ** 2 / (me + 2 * nuEnergy)\<close>, and \<^verbatim>\<open>nuEnergy\<close> lies between the
  larger of the smallest energy bin and \<^verbatim>\<open>nuThreshold\<close>, and the largest energy bin. The
  random generator is one whose draws lie in [0, 1).
\<close>

theorem genEvent_ranges:
  assumes "genEvent self sn_direction flavor eThreshold nuThreshold r = Inr (ev, r')"
    and "rng_ok r"
  shows "\<exists>lo hi m. np_min (nuEnergyBins self) = Inr lo \<and> np_max (nuEnergyBins self) = Inr hi
           \<and> maxKE (ev_nuEnergy ev) = Inr m
           \<and> m = 2 * (ev_nuEnergy ev)\<^sup>2 / (me + 2 * ev_nuEnergy ev)
           \<and> eThreshold \<le> ev_eKE ev \<and> ev_eKE ev \<le> m
           \<and> max lo nuThreshold \<le> ev_nuEnergy ev \<and> ev_nuEnergy ev \<le> hi"
proof -
  from genEvent_result [OF assms(1)] obtain f E r1 sn rot r2 T r3 where
    a: "selectNu self flavor nuThreshold r = Inr ((f, E), r1)"
    and s: "snRotation sn_direction r1 = Inr ((sn, rot), r2)"
    and b: "sampleRecoil f E eThreshold r2 = Inr (T, r3)"
    and c: "composeEvent f E sn rot T r3 = Inr (ev, r')"
    by (elim exE conjE)
  from composeEvent_result [OF c] have ev: "ev_nuEnergy ev = E" "ev_eKE ev = T"
    by auto
  have ok1: "rng_ok r1" using assms(2) rng_ok_tape [OF selectNu_result(3) [OF a]] by simp
  have ok2: "rng_ok r2" using ok1 rng_ok_tape [OF snRotation_tape [OF s]] by simp
  have bins: "nuEnergyBins self \<noteq> []" by (rule selectNu_result(4) [OF a])
  have nz: "me + 2 * E \<noteq> 0" by (rule sampleRecoil_result(2) [OF b])
  have "np_min (nuEnergyBins self) = Inr (Min (set (nuEnergyBins self)))"
    using bins by (simp add: np_min_def)
  moreover have "np_max (nuEnergyBins self) = Inr (Max (set (nuEnergyBins self)))"
    using bins by (simp add: np_max_def)
  moreover have "maxKE (ev_nuEnergy ev) = Inr (2 * E\<^sup>2 / (me + 2 * E))"
    using nz by (simp add: maxKE_def py_div_def ev)
  moreover have "eThreshold \<le> ev_eKE ev \<and> ev_eKE ev \<le> 2 * E\<^sup>2 / (me + 2 * E)"
    using sampleRecoil_result(4) [OF b ok2] by (simp add: ev)
  moreover have "max (Min (set (nuEnergyBins self))) nuThreshold \<le> ev_nuEnergy ev
                 \<and> ev_nuEnergy ev \<le> Max (set (nuEnergyBins self))"
    using selectNu_result(5) [OF a assms(2)] by (simp add: ev)
  ultimately show ?thesis by (simp add: ev)
qed

theorem genEvent_ranges_witness:
  "genEvent demo_gen (Some (1, 0, 0)) (Some ''nue'') 1 2 zero_rng
     = Inr (demo_event, advance 5 zero_rng)
   \<and> rng_ok zero_rng
   \<and> maxKE 2 = Inr (8 / (me + 4))
   \<and> (1::real) \<le> ev_eKE demo_event \<and> ev_eKE demo_event \<le> 8 / (me + 4)
   \<and> max 1 2 \<le> ev_nuEnergy demo_event \<and> ev_nuEnergy demo_event \<le> 10"
proof -
  have ok: "rng_ok zero_rng" by (simp add: rng_ok_def zero_rng_def)
  have bins: "np_min (nuEnergyBins demo_gen) = Inr 1" "np_max (nuEnergyBins demo_gen) = Inr 10"
    by (simp_all add: np_min_def np_max_def demo_gen_def)
  have m: "maxKE 2 = Inr (8 / (me + 4))"
    by (simp add: maxKE_def py_div_def me_def)
  have e: "ev_nuEnergy demo_event = 2" "ev_eKE demo_event = 1"
    by (simp_all add: demo_event_def)
  from genEvent_ranges [OF genEvent_demo ok] show ?thesis
    unfolding bins e m using ok m by (simp add: genEvent_demo e me_def)
qed

subsection \<open>The flavor argument\<close>

lemma init_flavors:
  assumes "init readFile default_rng entropy dataDir flux detectorConfig seed = Inr (self, r)"
  shows "flavors self = [''nue'', ''nuebar'', ''numu'', ''numubar'', ''nutau'', ''nutaubar'']"
  using assms by (auto simp: init_def Let_def split: if_splits)

lemma selectNu_invalid:
  assumes "flavor \<notin> set (flavors self)"
  shows "selectNu self (Some flavor) nuThreshold r = Inl (AssertionError_flavor flavor)"
  using assms by (simp add: selectNu_def)

lemma genEvent_flavor:
  assumes "genEvent self sn_direction flavor eThreshold nuThreshold r = Inr (ev, r')"
  shows "\<exists>E r1. selectNu self flavor nuThreshold r = Inr ((ev_flavor ev, E), r1)"
proof -
  from genEvent_result [OF assms] obtain f E r1 sn rot r2 T r3 where
    a: "selectNu self flavor nuThreshold r = Inr ((f, E), r1)"
    and c: "composeEvent f E sn rot T r3 = Inr (ev, r')"
    by (elim exE conjE)
  from composeEvent_result [OF c] have "ev_flavor ev = f" by auto
  with a show ?thesis by blast
qed

text \<open>
  C6. On a generator with the six flavors of \<^verbatim>\<open>__init__\<close>, a supplied flavor that is one
  of them is the flavor \<^verbatim>\<open>selectNu\<close> returns and the flavor of the event \<^verbatim>\<open>genEvent\<close>
  returns; any other supplied flavor makes both calls fail with the assertion error of line 90,
  \<^verbatim>\<open>Invalid flavor\<close>, and no event is produced.
\<close>

theorem flavor_validation:
  assumes "flavors self = [''nue'', ''nuebar'', ''numu'', ''numubar'', ''nutau'', ''nutaubar'']"
  shows "(flavor \<in> set [''nue'', ''nuebar'', ''numu'', ''numubar'', ''nutau'', ''nutaubar''] \<longrightarrow>
            (\<forall>f E r1. selectNu self (Some flavor) nuThreshold r = Inr ((f, E), r1) \<longrightarrow> f = flavor)
          \<and> (\<forall>ev r1. genEvent self sn_direction (Some flavor) eThreshold nuThreshold r = Inr (ev, r1)
                \<longrightarrow> ev_flavor ev = flavor))
       \<and> (flavor \<notin> set [''nue'', ''nuebar'', ''numu'', ''numubar'', ''nutau'', ''nutaubar''] \<longrightarrow>
            selectNu self (Some flavor) nuThreshold r = Inl (AssertionError_flavor flavor)
          \<and> genEvent self sn_direction (Some flavor) eThreshold nuThreshold r
              = Inl (AssertionError_flavor flavor))"
proof -
  have a: "f = flavor" if "selectNu self (Some flavor) nuThreshold r = Inr ((f, E), r1)"
    for f E r1
    using selectNu_result(2) [OF that, of flavor] by simp
  have b: "ev_flavor ev = flavor"
    if "genEvent self sn_direction (Some flavor) eThreshold nuThreshold r = Inr (ev, r1)"
    for ev r1
    using genEvent_flavor [OF that] a by blast
  have c: "selectNu self (Some flavor) nuThreshold r = Inl (AssertionError_flavor flavor)"
    if "flavor \<notin> set [''nue'', ''nuebar'', ''numu'', ''numubar'', ''nutau'', ''nutaubar'']"
    using that selectNu_invalid [of flavor self nuThreshold r] unfolding assms by blast
  have d: "genEvent self sn_direction (Some flavor) eThreshold nuThreshold r
              = Inl (AssertionError_flavor flavor)"
    if "flavor \<notin> set [''nue'', ''nuebar'', ''numu'', ''numubar'', ''nutau'', ''nutaubar'']"
    using c [OF that] by (simp add: genEvent_def)
  from a b c d show ?thesis by blast
qed

theorem flavor_validation_witness:
  "flavors demo_gen = [''nue'', ''nuebar'', ''numu'', ''numubar'', ''nutau'', ''nutaubar'']
   \<and> genEvent demo_gen (Some (1, 0, 0)) (Some ''nue'') 1 2 zero_rng
       = Inr (demo_event, advance 5 zero_rng)
   \<and> ev_flavor demo_event = ''nue''
   \<and> selectNu demo_gen (Some ''nuet'') 2 zero_rng = Inl (AssertionError_flavor ''nuet'')
   \<and> genEvent demo_gen (Some (1, 0, 0)) (Some ''nuet'') 1 2 zero_rng
       = Inl (AssertionError_flavor ''nuet'')"
proof -
  have g: "flavors demo_gen = [''nue'', ''nuebar'', ''numu'', ''numubar'', ''nutau'', ''nutaubar'']"
    by (simp add: demo_gen_def)
  have n: "''nuet'' \<notin> set [''nue'', ''nuebar'', ''numu'', ''numubar'', ''nutau'', ''nutaubar'']"
    by simp
  have v: "''nue'' \<in> set [''nue'', ''nuebar'', ''numu'', ''numubar'', ''nutau'', ''nutaubar'']"
    by simp
  note t = flavor_validation [OF g]
  from t [of "''nuet''" 2 zero_rng "Some (1, 0, 0)" 1] n
  have "selectNu demo_gen (Some ''nuet'') 2 zero_rng = Inl (AssertionError_flavor ''nuet'')"
    "genEvent demo_gen (Some (1, 0, 0)) (Some ''nuet'') 1 2 zero_rng
       = Inl (AssertionError_flavor ''nuet'')"
    by blast+
  moreover from t [of "''nue''" 2 zero_rng "Some (1, 0, 0)" 1] v genEvent_demo
  have "ev_flavor demo_event = ''nue''" by blast
  ultimately show ?thesis using g genEvent_demo by simp
qed

subsection \<open>The recoil cosine and its assertion\<close>

lemma eCos_formula:
  assumes "E \<noteq> 0" "T + 2 * me \<noteq> 0"
  shows "eCos E T = (if T / (T + 2 * me) < 0 then Inl TypeError
                     else Inr ((E + me) / E * sqrt (T / (T + 2 * me))))"
  using assms by (simp add: eCos_def py_div_def)

lemma eCos_Inr:
  assumes "eCos E T = Inr c"
  shows "c = (E + me) / E * sqrt (T / (T + 2 * me))"
  using assms by (auto simp: eCos_def py_div_def split: if_splits)

lemma composeEvent_assert:
  assumes "eCos E T = Inr c" "\<not> (- 1 \<le> c \<and> c \<le> 1)"
  shows "composeEvent f E sn rot T r = Inl (AssertionError_eCos c T E)"
  using assms by (simp add: composeEvent_def)

lemma eCos_bad: "eCos 2 (- 3) = Inr demo_bad_eCos"
  by (simp add: eCos_def py_div_def demo_bad_eCos_def me_def)

lemma demo_bad_eCos_gt: "1 < demo_bad_eCos"
proof -
  have a: "2 / (2 + me) < sqrt (- 3 / (- 3 + 2 * me))"
    by (rule real_less_rsqrt) (simp add: me_def power2_eq_square)
  have "1 = (2 + me) / 2 * (2 / (2 + me))" by (simp add: me_def)
  also have "\<dots> < (2 + me) / 2 * sqrt (- 3 / (- 3 + 2 * me))"
    using a by (intro mult_strict_left_mono) (simp_all add: me_def)
  finally show ?thesis unfolding demo_bad_eCos_def .
qed

text \<open>
  C8. After the neutrino and the recoil energy \<open>T\<close> have been drawn, \<^verbatim>\<open>eCos\<close> is
  \<^verbatim>\<open>(nuEnergy + me) / nuEnergy * (T / (T + 2 * me)) ** 0.5\<close>; when that value lies outside
  [-1, 1] \<^verbatim>\<open>genEvent\<close> fails with the assertion error of line 153 carrying the value, and an
  event is returned only with the value inside [-1, 1].
\<close>

theorem eCos_assertion:
  assumes "selectNu self flavor nuThreshold r = Inr ((f, E), r1)"
    and "snRotation sn_direction r1 = Inr ((sn, rot), r2)"
    and "sampleRecoil f E eThreshold r2 = Inr (T, r3)"
  shows "(T + 2 * me \<noteq> 0 \<and> 0 \<le> T / (T + 2 * me)
            \<longrightarrow> eCos E T = Inr ((E + me) / E * sqrt (T / (T + 2 * me))))
       \<and> (\<forall>c. eCos E T = Inr c \<longrightarrow> c = (E + me) / E * sqrt (T / (T + 2 * me)))
       \<and> (\<forall>c. eCos E T = Inr c \<and> \<not> (- 1 \<le> c \<and> c \<le> 1)
            \<longrightarrow> genEvent self sn_direction flavor eThreshold nuThreshold r
                  = Inl (AssertionError_eCos c T E))
       \<and> (\<forall>ev r'. genEvent self sn_direction flavor eThreshold nuThreshold r = Inr (ev, r')
            \<longrightarrow> ev_nuEnergy ev = E \<and> ev_eKE ev = T
                \<and> (\<exists>c. eCos E T = Inr c \<and> - 1 \<le> c \<and> c \<le> 1))"
proof -
  have g: "genEvent self sn_direction flavor eThreshold nuThreshold r
             = composeEvent f E sn rot T r3"
    by (simp add: genEvent_def assms)
  have E: "E \<noteq> 0" by (rule sampleRecoil_result(1) [OF assms(3)])
  have a: "eCos E T = Inr ((E + me) / E * sqrt (T / (T + 2 * me)))"
    if "T + 2 * me \<noteq> 0 \<and> 0 \<le> T / (T + 2 * me)"
    using that eCos_formula [OF E, of T] by simp
  have b: "c = (E + me) / E * sqrt (T / (T + 2 * me))" if "eCos E T = Inr c" for c
    using that by (rule eCos_Inr)
  have c: "genEvent self sn_direction flavor eThreshold nuThreshold r
             = Inl (AssertionError_eCos c T E)"
    if "eCos E T = Inr c \<and> \<not> (- 1 \<le> c \<and> c \<le> 1)" for c
    unfolding g using that composeEvent_assert [of E T c f sn rot r3] by blast
  have d: "ev_nuEnergy ev = E \<and> ev_eKE ev = T \<and> (\<exists>c. eCos E T = Inr c \<and> - 1 \<le> c \<and> c \<le> 1)"
    if "genEvent self sn_direction flavor eThreshold nuThreshold r = Inr (ev, r')" for ev r'
    using composeEvent_result [OF that [unfolded g]] by auto
  from a b c d show ?thesis by blast
qed

theorem eCos_assertion_witness:
  "selectNu demo_gen (Some ''nue'') 2 zero_rng = Inr ((''nue'', 2), advance 2 zero_rng)
   \<and> snRotation (Some (1, 0, 0)) (advance 2 zero_rng)
       = Inr ((Some (1, 0, 0), Some (0, pi / 2, 0)), advance 2 zero_rng)
   \<and> sampleRecoil ''nue'' 2 (- 3) (advance 2 zero_rng) = Inr (- 3, advance 4 zero_rng)
   \<and> eCos 2 (- 3) = Inr ((2 + me) / 2 * sqrt (- 3 / (- 3 + 2 * me)))
   \<and> 1 < (2 + me) / 2 * sqrt (- 3 / (- 3 + 2 * me))
   \<and> genEvent demo_gen (Some (1, 0, 0)) (Some ''nue'') (- 3) 2 zero_rng
       = Inl (AssertionError_eCos ((2 + me) / 2 * sqrt (- 3 / (- 3 + 2 * me))) (- 3) 2)"
proof -
  have z: "tape (advance n zero_rng) (pos (advance n zero_rng)) = 0"
    "tape (advance n zero_rng) (Suc (pos (advance n zero_rng))) = 0" for n
    by (simp_all add: zero_rng_def advance_def)
  have z0: "tape zero_rng (pos zero_rng) = 0" "tape zero_rng (Suc (pos zero_rng)) = 0"
    by (simp_all add: zero_rng_def)
  have a: "selectNu demo_gen (Some ''nue'') 2 zero_rng = Inr ((''nue'', 2), advance 2 zero_rng)"
    using selectNu_demo [of 2 zero_rng] z0 by simp
  have s: "snRotation (Some (1, 0, 0)) (advance 2 zero_rng)
       = Inr ((Some (1, 0, 0), Some (0, pi / 2, 0)), advance 2 zero_rng)"
    by (rule snRotation_demo)
  have b: "sampleRecoil ''nue'' 2 (- 3) (advance 2 zero_rng) = Inr (- 3, advance 4 zero_rng)"
    using sampleRecoil_demo(2) [OF z, of 2] by (simp add: advance_advance)
  have e: "eCos 2 (- 3) = Inr demo_bad_eCos" by (rule eCos_bad)
  have n: "\<not> (- 1 \<le> demo_bad_eCos \<and> demo_bad_eCos \<le> 1)" using demo_bad_eCos_gt by simp
  from eCos_assertion [OF a s b] e n
  have "genEvent demo_gen (Some (1, 0, 0)) (Some ''nue'') (- 3) 2 zero_rng
          = Inl (AssertionError_eCos demo_bad_eCos (- 3) 2)"
    by blast
  then show ?thesis
    using a s b e demo_bad_eCos_gt by (simp add: demo_bad_eCos_def)
qed

subsection \<open>Reproducibility\<close>

lemma init_seeded:
  assumes "seed \<noteq> - 1"
  shows "init readFile default_rng entropy dataDir flux detectorConfig seed
           = init readFile default_rng entropy' dataDir flux detectorConfig seed"
  using assms by (simp add: init_def)

text \<open>
  C9. Two runs that construct a generator from the same files with the same seed, other than
  the value -1 that \<^verbatim>\<open>__init__\<close> reads as "no seed", and make the same sequence of
  \<^verbatim>\<open>genEvent\<close> calls produce the same events, whatever entropy the operating system
  would have supplied to an unseeded generator in either run.
\<close>

theorem run_deterministic:
  assumes "seed \<noteq> - 1"
  shows "run readFile default_rng entropy dataDir flux detectorConfig seed calls
           = run readFile default_rng entropy' dataDir flux detectorConfig seed calls"
  unfolding run_def init_seeded [OF assms, of readFile default_rng entropy dataDir flux
      detectorConfig entropy'] by (rule refl)

theorem run_deterministic_witness:
  "(42::int) \<noteq> - 1
   \<and> run demo_readFile demo_default_rng late_tape ''data'' ''gvkm'' ''scint20kt'' 42
       [(Some (1, 0, 0), Some ''nue'', 1, 2)] = Inr [Inr demo_event]
   \<and> run demo_readFile demo_default_rng (\<lambda>n. 0) ''data'' ''gvkm'' ''scint20kt'' 42
       [(Some (1, 0, 0), Some ''nue'', 1, 2)] = Inr [Inr demo_event]"
proof -
  have "run demo_readFile demo_default_rng late_tape ''data'' ''gvkm'' ''scint20kt'' 42
       [(Some (1, 0, 0), Some ''nue'', 1, 2)] = Inr [Inr demo_event]"
    by (simp add: run_def init_demo genEvent_demo)
  moreover have "(42::int) \<noteq> - 1" by simp
  from run_deterministic [OF this, of demo_readFile demo_default_rng late_tape "''data''"
      "''gvkm''" "''scint20kt''" "[(Some (1, 0, 0), Some ''nue'', 1, 2)]" "\<lambda>n. 0"]
  have "run demo_readFile demo_default_rng late_tape ''data'' ''gvkm'' ''scint20kt'' 42
       [(Some (1, 0, 0), Some ''nue'', 1, 2)]
     = run demo_readFile demo_default_rng (\<lambda>n. 0) ''data'' ''gvkm'' ''scint20kt'' 42
       [(Some (1, 0, 0), Some ''nue'', 1, 2)]" .
  ultimately show ?thesis by simp
qed

subsection \<open>A supplied direction that is not a unit vector\<close>

lemma unit_vector_Some:
  assumes "unit_vector v = Some s"
  shows "linalg_norm v \<noteq> 0" and "s = smul (1 / linalg_norm v) v"
  using assms by (auto simp: unit_vector_def split: if_splits)

lemma genEvent_rescale:
  assumes "linalg_norm v \<noteq> 0"
  shows "genEvent self (Some v) flavor eThreshold nuThreshold r
           = genEvent self (Some (smul (1 / linalg_norm v) v)) flavor eThreshold nuThreshold r"
proof -
  have "unit_vector v = Some (smul (1 / linalg_norm v) v)"
    using assms by (simp add: unit_vector_def)
  note s = snRotation_rescale [OF this]
  show ?thesis
    unfolding genEvent_def s by (rule refl)
qed

lemma genEvent_sn_direction:
  assumes "genEvent self (Some v) flavor eThreshold nuThreshold r = Inr (ev, r')"
  shows "linalg_norm v \<noteq> 0 \<and> ev_sn_direction ev = smul (1 / linalg_norm v) v"
proof -
  from genEvent_result [OF assms] obtain f E r1 sn rot r2 T r3 where
    s: "snRotation (Some v) r1 = Inr ((sn, rot), r2)"
    and c: "composeEvent f E sn rot T r3 = Inr (ev, r')"
    by (elim exE conjE)
  from composeEvent_result [OF c] obtain s' where sn: "sn = Some s'"
    and ev: "ev_sn_direction ev = s'"
    by auto
  have "unit_vector v = Some s'" using snRotation_supplied(1) [OF s] sn by simp
  from unit_vector_Some [OF this] ev show ?thesis by simp
qed

text \<open>
  C10. A supplied \<^verbatim>\<open>sn_direction\<close> of nonzero norm is divided by its norm before anything
  else looks at it: \<^verbatim>\<open>genEvent\<close> does on it exactly what it does on the unit vector, and
  an event it returns carries the unit vector. A supplied vector along the z axis, of any
  length, is not accepted: the rotation axis of line 122 is then 0/0 and no event is returned.
\<close>

theorem genEvent_sn_direction_normalised:
  "(linalg_norm v \<noteq> 0 \<longrightarrow>
      genEvent self (Some v) flavor eThreshold nuThreshold r
        = genEvent self (Some (smul (1 / linalg_norm v) v)) flavor eThreshold nuThreshold r)
   \<and> (\<forall>ev r'. genEvent self (Some v) flavor eThreshold nuThreshold r = Inr (ev, r')
        \<longrightarrow> linalg_norm v \<noteq> 0 \<and> ev_sn_direction ev = smul (1 / linalg_norm v) v)
   \<and> (fst v = 0 \<and> fst (snd v) = 0
        \<longrightarrow> (\<exists>e. genEvent self (Some v) flavor eThreshold nuThreshold r = Inl e))"
proof -
  have c: "\<exists>e. genEvent self (Some v) flavor eThreshold nuThreshold r = Inl e"
    if "fst v = 0 \<and> fst (snd v) = 0"
  proof -
    obtain x y z where v: "v = (x, y, z)" by (cases v) auto
    with that have "v = (0, 0, z)" by simp
    then show ?thesis using genEvent_along_z [of self z flavor eThreshold nuThreshold r] by simp
  qed
  from genEvent_rescale [of v self flavor eThreshold nuThreshold r]
    genEvent_sn_direction [of self v flavor eThreshold nuThreshold r] c
  show ?thesis by blast
qed

theorem genEvent_sn_direction_normalised_witness:
  "linalg_norm (2, 0, 0) \<noteq> 0
   \<and> smul (1 / linalg_norm (2, 0, 0)) (2, 0, 0) = ev_sn_direction demo_event
   \<and> genEvent demo_gen (Some (2, 0, 0)) (Some ''nue'') 1 2 zero_rng
       = Inr (demo_event, advance 5 zero_rng)
   \<and> genEvent demo_gen (Some (0, 0, 2)) (Some ''nue'') 1 2 zero_rng = Inl AssertionError_dot"
proof -
  have n: "linalg_norm (2, 0, 0) = 2" by simp
  have u: "smul (1 / linalg_norm (2, 0, 0)) (2, 0, 0) = (1, 0, 0)" unfolding n by simp
  from genEvent_sn_direction_normalised [of "(2, 0, 0)" demo_gen "Some ''nue''" 1 2 zero_rng]
  have "genEvent demo_gen (Some (2, 0, 0)) (Some ''nue'') 1 2 zero_rng
          = genEvent demo_gen (Some (1, 0, 0)) (Some ''nue'') 1 2 zero_rng"
    unfolding u using n by simp
  then have "genEvent demo_gen (Some (2, 0, 0)) (Some ''nue'') 1 2 zero_rng
          = Inr (demo_event, advance 5 zero_rng)"
    by (simp add: genEvent_demo)
  moreover have "genEvent demo_gen (Some (0, 0, 2)) (Some ''nue'') 1 2 zero_rng
          = Inl AssertionError_dot"
    by (rule genEvent_demo_zaxis) simp
  ultimately show ?thesis using n u by (simp add: demo_event_def)
qed

end
